theory Spec2Isabelle
  imports Main "HOL-Library.Sublist" "HOL-Library.AList"
begin

section \<open>Next.js server-action analyzer: the backend's correlation store\<close>

text \<open>
  The backend keeps six module-level variables (the invocation list, the note table, the
  name table, the declared-action table, the usage-history table and the set of request
  identifiers already processed) and talks to its host through an SDK object. The model
  threads one record holding these variables, together with the log of the events the
  backend sent, through every operation. A function of the backend that can throw
  returns the thrown value next to the state it had reached.

  Strings are \<open>char list\<close>: a string of the program is the list of its code units, for
  code units below 256 (the Latin-1 range, which holds ASCII). In that range the helpers
  below follow the language: \<open>trim\<close> removes tab, line feed, vertical tab, form feed,
  carriage return, space and the no-break space U+00A0, and the case conversions map the
  ASCII letters and the accented letters of Latin-1.

  A \<open>Record<string, T>\<close> object is an association list of its own properties in insertion
  order, read through \<open>getProp\<close>, which also finds what every plain object inherits from
  \<open>Object.prototype\<close>. A store is \<open>AList.update\<close> (an existing key keeps its place, a new
  key goes last). Keys that are array indices, which the language enumerates first, do
  not occur in the two tables whose keys are enumerated: those keys are captures of forty
  or more hexadecimal digits.
\<close>

subsection \<open>String helpers of the language\<close>

text \<open>
  \<open>toLowerCase\<close> on a code unit: the letters A--Z, and the letters U+00C0--U+00DE other
  than the multiplication sign U+00D7, move up by 32 (bit 5 is set).
\<close>

definition toLowerChar :: "char \<Rightarrow> char" where
  "toLowerChar c =
     (case map_of (zip ''ABCDEFGHIJKLMNOPQRSTUVWXYZ'' ''abcdefghijklmnopqrstuvwxyz'') c of
        Some d \<Rightarrow> d
      | None \<Rightarrow>
          if digit7 c \<and> digit6 c \<and> \<not> digit5 c \<and> c \<noteq> CHR 0xD7 \<and> c \<noteq> CHR 0xDF
          then Char (digit0 c) (digit1 c) (digit2 c) (digit3 c) (digit4 c) True
                 (digit6 c) (digit7 c)
          else c)"

text \<open>
  \<open>toUpperCase\<close> on a code unit: the letters a--z, and the letters U+00E0--U+00FE other
  than the division sign U+00F7, move down by 32; the sharp s U+00DF becomes \<open>SS\<close>. The
  micro sign U+00B5 and the letter U+00FF, whose upper-case forms are code units above
  255, stay as they are: the analyzer compares the result with \<open>POST\<close> only.
\<close>

definition toUpperChar :: "char \<Rightarrow> string" where
  "toUpperChar c =
     (case map_of (zip ''abcdefghijklmnopqrstuvwxyz'' ''ABCDEFGHIJKLMNOPQRSTUVWXYZ'') c of
        Some d \<Rightarrow> [d]
      | None \<Rightarrow>
          if c = CHR 0xDF then ''SS''
          else if digit7 c \<and> digit6 c \<and> digit5 c \<and> c \<noteq> CHR 0xF7 \<and> c \<noteq> CHR 0xFF
          then [Char (digit0 c) (digit1 c) (digit2 c) (digit3 c) (digit4 c) False
                  (digit6 c) (digit7 c)]
          else [c])"

definition toLowerCase :: "string \<Rightarrow> string" where
  "toLowerCase s = map toLowerChar s"

definition toUpperCase :: "string \<Rightarrow> string" where
  "toUpperCase s = concat (map toUpperChar s)"

text \<open>\<open>s.includes(p)\<close>: \<open>p\<close> occurs in \<open>s\<close> as a contiguous piece.\<close>

fun js_includes :: "string \<Rightarrow> string \<Rightarrow> bool" where
  "js_includes [] p = (p = [])"
| "js_includes (c # cs) p = (prefix p (c # cs) \<or> js_includes cs p)"

definition startsWith :: "string \<Rightarrow> string \<Rightarrow> bool" where
  "startsWith s p = prefix p s"

text \<open>
  The white space and line terminators that \<open>trim\<close> removes, among the code units below
  256: U+0009--U+000D, U+0020 and U+00A0.
\<close>

definition isWhiteSpace :: "char \<Rightarrow> bool" where
  "isWhiteSpace c =
     (c \<in> set [CHR 0x09, CHR 0x0A, CHR 0x0B, CHR 0x0C, CHR 0x0D, CHR 0x20, CHR 0xA0])"

definition trim :: "string \<Rightarrow> string" where
  "trim s = rev (dropWhile isWhiteSpace (rev (dropWhile isWhiteSpace s)))"

definition isDigit :: "char \<Rightarrow> bool" where
  "isDigit c = (c \<in> set ''0123456789'')"

text \<open>The regular expression \<open>/^\d+$/\<close>: one or more decimal digits and nothing else.\<close>

definition all_digits :: "string \<Rightarrow> bool" where
  "all_digits s = (s \<noteq> [] \<and> list_all isDigit s)"

text \<open>A natural number in a template string: its decimal digits.\<close>

fun show_nat :: "nat \<Rightarrow> string" where
  "show_nat n =
     (if n < 10 then [''0123456789'' ! n]
      else show_nat (n div 10) @ [''0123456789'' ! (n mod 10)])"

declare show_nat.simps [simp del]

text \<open>\<open>notes.join("; ")\<close>.\<close>

fun join :: "string \<Rightarrow> string list \<Rightarrow> string" where
  "join sep [] = []"
| "join sep [x] = x"
| "join sep (x # y # ys) = x @ sep @ join sep (y # ys)"

text \<open>\<open>s.split(sep)\<close> for a one-character separator: the pieces between its occurrences.\<close>

fun split_on :: "char \<Rightarrow> string \<Rightarrow> string list" where
  "split_on sep [] = [[]]"
| "split_on sep (c # cs) =
     (if c = sep then [] # split_on sep cs
      else (case split_on sep cs of
              [] \<Rightarrow> [[c]]
            | p # ps \<Rightarrow> (c # p) # ps))"

subsection \<open>Plain objects used as tables\<close>

text \<open>
  The property names that a plain object inherits from \<open>Object.prototype\<close>. A lookup
  \<open>table[key]\<close> finds an own property, or else the inherited value under one of these
  names (a function, or the prototype object itself for \<open>__proto__\<close>), or else nothing.
\<close>

definition prototypeKeys :: "string list" where
  "prototypeKeys =
     [''constructor'', ''__defineGetter__'', ''__defineSetter__'', ''hasOwnProperty'',
      ''__lookupGetter__'', ''__lookupSetter__'', ''isPrototypeOf'', ''propertyIsEnumerable'',
      ''toString'', ''valueOf'', ''__proto__'', ''toLocaleString'']"

datatype 'a lookup = Own 'a | Inherited | Missing

definition getProp :: "(string \<times> 'a) list \<Rightarrow> string \<Rightarrow> 'a lookup" where
  "getProp table key =
     (case map_of table key of
        Some v \<Rightarrow> Own v
      | None \<Rightarrow> if key \<in> set prototypeKeys then Inherited else Missing)"

text \<open>
  \<open>table[key]?.length ?? 0\<close> on an inherited value: the number of parameters of the
  inherited function, and 0 for the prototype object, which has no length.
\<close>

definition inheritedLength :: "string \<Rightarrow> nat" where
  "inheritedLength key =
     (if key \<in> set [''__defineGetter__'', ''__defineSetter__''] then 2
      else if key \<in> set [''constructor'', ''hasOwnProperty'', ''__lookupGetter__'',
                          ''__lookupSetter__'', ''isPrototypeOf'', ''propertyIsEnumerable'']
        then 1
      else 0)"

text \<open>
  \<open>table[key] = text\<close> for a key of any origin: an own property is created or replaced,
  except that the name \<open>__proto__\<close>, when the object has no own property of that name,
  reaches the inherited setter, which ignores a value that is not an object.
\<close>

definition setProp :: "string \<Rightarrow> string \<Rightarrow> (string \<times> string) list \<Rightarrow> (string \<times> string) list" where
  "setProp key text table =
     (if key = ''__proto__'' \<and> map_of table key = None then table
      else AList.update key text table)"

subsection \<open>What the host and the language supply\<close>

text \<open>
  A parsed JSON value, as far as the analyzer looks at it. A number is seen only through
  \<open>Number.isInteger\<close> and through its text in a template string, so it is carried as
  that pair. An object is the list of its entries in the order of \<open>Object.entries\<close>.
\<close>

datatype json =
    JNull
  | JBool bool
  | JNumber bool string
  | JString string
  | JArray "json list"
  | JObject "(string \<times> json) list"

text \<open>
  The parts of the language's library that the analyzer calls with constants of its own:
  \<open>JSON.parse\<close> (\<open>None\<close> when it throws), the test of each regular expression of
  \<open>errorPatterns\<close>, the captures \<open>(match[1], match[2])\<close> that \<open>body.matchAll\<close> yields for
  each pattern of the name-extraction pass and of the discovery pass, and the clock
  behind \<open>nowIso\<close> (its reading at the k-th call). The engine also decides the text of
  an inherited value in a template string, and the messages of the \<open>TypeError\<close> it raises
  when a method that the value lacks is called and when the value is spread.
\<close>

record Env =
  JSON_parse :: "string \<Rightarrow> json option"
  errorPatterns :: "(string \<Rightarrow> bool) list"
  namePatterns :: "(string \<Rightarrow> (string option \<times> string option) list) list"
  discoveryPatterns :: "(string \<Rightarrow> (string option \<times> string option) list) list"
  clock :: "nat \<Rightarrow> string"
  inheritedText :: "string \<Rightarrow> string"
  notAFunction :: string
  notIterable :: string

text \<open>
  What a \<open>catch\<close> clause can receive: an \<open>Error\<close> object with its message (a \<open>TypeError\<close>
  is one), or any other thrown value. The \<open>catch\<close> clauses of the backend all compute the
  same message.
\<close>

datatype thrown = ErrorObject string | OtherValue

definition errorMessage :: "thrown \<Rightarrow> string" where
  "errorMessage e = (case e of ErrorObject m \<Rightarrow> m | OtherValue \<Rightarrow> ''Unknown error'')"

text \<open>
  A loop \<open>for (const x of xs) body\<close> whose body can throw: the loop stops at the first
  throw, with the state the body had reached.
\<close>

fun forEach :: "('s \<Rightarrow> 'a \<Rightarrow> thrown option \<times> 's) \<Rightarrow> 'a list \<Rightarrow> 's \<Rightarrow> thrown option \<times> 's" where
  "forEach body [] s = (None, s)"
| "forEach body (x # xs) s =
     (case body s x of
        (Some e, s') \<Rightarrow> (Some e, s')
      | (None, s') \<Rightarrow> forEach body xs s')"

text \<open>
  A request and a response of the traffic source, by what their getters return:
  \<open>getId\<close>, \<open>getHost\<close>, \<open>getPath\<close>, \<open>getMethod\<close>, \<open>getUrl\<close>, \<open>getHeaders\<close>,
  \<open>getBody\<close> (as text, when there is one) and the length of \<open>getRaw().toBytes()\<close>;
  \<open>getCode\<close>, \<open>getBody\<close>, the raw length and \<open>getCreatedAt().toISOString()\<close>.
\<close>

record Request =
  req_id :: string
  req_host :: string
  req_path :: string
  req_method :: string
  req_url :: string
  req_headers :: "(string \<times> string list) list"
  req_body :: "string option"
  req_rawLength :: nat

record Response =
  resp_code :: int
  resp_body :: "string option"
  resp_rawLength :: nat
  resp_createdAt :: string

text \<open>
  Modelled from the spec: the traffic source's \<open>getHeader\<close>, which is not part of the
  repository; the spec gives the headers a case-insensitive lookup.
\<close>

definition getHeader :: "Request \<Rightarrow> string \<Rightarrow> string list option" where
  "getHeader request name =
     map_of (map (\<lambda>(k, vs). (toLowerCase k, vs)) (req_headers request)) (toLowerCase name)"

subsection \<open>The store\<close>

record ActionEntry =
  ae_id :: nat
  ae_requestId :: string
  ae_method :: string
  ae_url :: string
  ae_actionId :: string
  ae_parameters :: string
  ae_requestSize :: nat
  ae_responseSize :: nat
  ae_statusCode :: int
  ae_timestamp :: string
  ae_securityNotes :: string
  ae_actionNotes :: string

record DiscoveredAction =
  da_actionId :: string
  da_functionName :: string
  da_status :: string
  da_chunkFile :: string
  da_executedCount :: nat
  da_notes :: string

record DiscoveryResult =
  dr_status :: string
  dr_all :: "DiscoveredAction list"
  dr_unused :: "DiscoveredAction list"
  dr_unknown :: "DiscoveredAction list"

record DiscoveredActionInternal =
  di_actionId :: string
  di_functionName :: string
  di_chunkFile :: string
  di_firstSeen :: string
  di_chunkRequestId :: string

record ActionUsage =
  au_timestamp :: string
  au_url :: string
  au_method :: string
  au_statusCode :: int
  au_parameters :: string
  au_securityNotes :: string
  au_requestId :: string

text \<open>The three backend events of \<open>sdk.api.send\<close>.\<close>

datatype event =
    StatusEvent string
  | ActionAddedEvent ActionEntry
  | DataChangedEvent

text \<open>
  The module's variables, the events sent so far, and the number of clock readings taken.
\<close>

record State =
  actions :: "ActionEntry list"
  actionNotesById :: "(string \<times> string) list"
  actionNamesById :: "(string \<times> string) list"
  discoveredActionsById :: "(string \<times> DiscoveredActionInternal) list"
  actionUsagesById :: "(string \<times> ActionUsage list) list"
  seenRequestIds :: "string set"
  sent :: "event list"
  ticks :: nat

definition initial :: State where
  "initial = \<lparr>actions = [], actionNotesById = [], actionNamesById = [],
     discoveredActionsById = [], actionUsagesById = [], seenRequestIds = {},
     sent = [], ticks = 0\<rparr>"

datatype 'a Result = Ok 'a | Error string

definition send :: "State \<Rightarrow> event \<Rightarrow> State" where
  "send st e = st\<lparr>sent := sent st @ [e]\<rparr>"

definition sendStatus :: "State \<Rightarrow> string \<Rightarrow> State" where
  "sendStatus st status = send st (StatusEvent status)"

subsection \<open>Reading a request\<close>

definition isNextChunkRequest :: "Request \<Rightarrow> bool" where
  "isNextChunkRequest request =
     (let path = req_path request in
      if \<not> js_includes path ''/_next/static/chunks/'' then False
      else (case split_on (CHR ''?'') path of
              [] \<Rightarrow> False
            | base # _ \<Rightarrow> suffix ''.js'' base))"

definition getNextActionIdFromRequest :: "Request \<Rightarrow> string option" where
  "getNextActionIdFromRequest request =
     (case getHeader request ''Next-Action'' of
        None \<Rightarrow> None
      | Some [] \<Rightarrow> None
      | Some (v # _) \<Rightarrow>
          (let trimmed = trim v in if trimmed \<noteq> [] then Some trimmed else None))"

definition getTextBody :: "string option \<Rightarrow> string" where
  "getTextBody body = (case body of None \<Rightarrow> [] | Some t \<Rightarrow> t)"

definition safeJsonParse :: "Env \<Rightarrow> string \<Rightarrow> json option" where
  "safeJsonParse env t = (if length t = 0 then None else JSON_parse env t)"

subsection \<open>Security notes\<close>

definition dangerousParams :: "string list" where
  "dangerousParams =
     [''id'', ''userId'', ''user_id'', ''role'', ''admin'', ''delete'', ''update'',
      ''team'', ''teamId'']"

text \<open>One entry of an object of the body: the inner loop over \<open>Object.entries(element)\<close>.\<close>

definition directIdEntry :: "string \<times> json \<Rightarrow> string list" where
  "directIdEntry kv =
     (case kv of (key, v) \<Rightarrow>
        if \<not> js_includes (toLowerCase key) ''id'' then []
        else (case v of
                JNumber isInteger txt \<Rightarrow>
                  if isInteger then [''Direct ID: '' @ key @ ''='' @ txt] else []
              | JString str \<Rightarrow>
                  if all_digits str then [''Direct ID: '' @ key @ ''='' @ str] else []
              | _ \<Rightarrow> []))"

text \<open>The outer loop over \<open>bodyJson.slice(1)\<close>: only elements that are plain objects count.\<close>

definition directIdElement :: "json \<Rightarrow> string list" where
  "directIdElement element =
     (case element of JObject entries \<Rightarrow> concat (map directIdEntry entries) | _ \<Rightarrow> [])"

definition directIdNotes :: "json option \<Rightarrow> string list" where
  "directIdNotes bodyJson =
     (case bodyJson of
        Some (JArray elements) \<Rightarrow>
          if length elements > 1 then concat (map directIdElement (tl elements)) else []
      | _ \<Rightarrow> [])"

text \<open>\<open>origin.replace(/^https?:\/\//, "").split("/")[0] ?? ""\<close>.\<close>

definition originHostOf :: "string \<Rightarrow> string" where
  "originHostOf origin =
     (let rest = (if prefix ''http://'' origin then drop 7 origin
                  else if prefix ''https://'' origin then drop 8 origin
                  else origin)
      in case split_on (CHR ''/'') rest of [] \<Rightarrow> [] | h # _ \<Rightarrow> h)"

text \<open>\<open>request.getHeader(name)?.[0]?.trim()\<close>.\<close>

definition firstHeaderTrimmed :: "Request \<Rightarrow> string \<Rightarrow> string option" where
  "firstHeaderTrimmed request name =
     (case getHeader request name of
        None \<Rightarrow> None
      | Some [] \<Rightarrow> None
      | Some (v # _) \<Rightarrow> Some (trim v))"

text \<open>\<open>actionUsagesById[actionId]?.length ?? 0\<close>.\<close>

definition reusedCount :: "State \<Rightarrow> string \<Rightarrow> nat" where
  "reusedCount st actionId =
     (case getProp (actionUsagesById st) actionId of
        Own us \<Rightarrow> length us
      | Inherited \<Rightarrow> inheritedLength actionId
      | Missing \<Rightarrow> 0)"

text \<open>
  The rules of \<open>analyzeSecurity\<close>, one definition for each block that pushes onto the
  array \<open>notes\<close>, in the order of the source.
\<close>

definition authNotes :: "Request \<Rightarrow> string list" where
  "authNotes request =
     (let headerKeys = map (\<lambda>h. toLowerCase h) (map fst (req_headers request));
          hasAuth = (''authorization'' \<in> set headerKeys \<or> ''cookie'' \<in> set headerKeys)
      in if \<not> hasAuth then [''No auth headers''] else [])"

definition paramNotes :: "string \<Rightarrow> string list" where
  "paramNotes parameters =
     (let lowerParams = toLowerCase parameters in
      concat (map (\<lambda>danger.
                if js_includes lowerParams (toLowerCase danger) then [''Contains: '' @ danger]
                else [])
              dangerousParams))"

definition devNotes :: "string \<Rightarrow> string list" where
  "devNotes responseBody =
     (if js_includes (toLowerCase responseBody) ''development''
         \<or> js_includes responseBody ''__NEXT_DATA__''
      then [''Dev mode indicators''] else [])"

definition errorNotes :: "Env \<Rightarrow> string \<Rightarrow> string list" where
  "errorNotes env responseBody =
     (if list_ex (\<lambda>p. p responseBody) (errorPatterns env) then [''Error in response'']
      else [])"

definition dbNotes :: "string \<Rightarrow> string list" where
  "dbNotes responseBody =
     (if list_ex (\<lambda>s. js_includes (toLowerCase responseBody) s)
           [''mssql'', ''postgres'', ''mysql'', ''database error'']
      then [''DB mention''] else [])"

definition originNotes :: "Request \<Rightarrow> string list" where
  "originNotes request =
     (case firstHeaderTrimmed request ''Origin'' of
        None \<Rightarrow> []
      | Some origin \<Rightarrow>
          (case firstHeaderTrimmed request ''Host'' of
             None \<Rightarrow> []
           | Some host \<Rightarrow>
               if origin \<noteq> [] \<and> host \<noteq> [] then
                 (let originHost = originHostOf origin in
                  if originHost \<noteq> [] \<and> originHost \<noteq> host then [''Origin/Host mismatch'']
                  else [])
               else []))"

definition reuseNotes :: "State \<Rightarrow> string \<Rightarrow> string list" where
  "reuseNotes st actionId =
     (let reused = reusedCount st actionId in
      if reused > 10 then [''Action reused '' @ show_nat reused @ ''x''] else [])"

definition bindNotes :: "string \<Rightarrow> string list" where
  "bindNotes parameters =
     (if js_includes parameters ''.bind('' then [''Potential .bind() usage''] else [])"

definition methodNotes :: "Request \<Rightarrow> string list" where
  "methodNotes request =
     (if toUpperCase (req_method request) \<noteq> ''POST'' then [''Non-POST action''] else [])"

text \<open>The array \<open>notes\<close> when the function joins it.\<close>

definition securityNoteList ::
  "Env \<Rightarrow> State \<Rightarrow> Request \<Rightarrow> Response \<Rightarrow> string \<Rightarrow> string \<Rightarrow> string list" where
  "securityNoteList env st request response actionId parameters =
     (let responseBody = getTextBody (resp_body response) in
        authNotes request
      @ paramNotes parameters
      @ directIdNotes (safeJsonParse env parameters)
      @ devNotes responseBody
      @ errorNotes env responseBody
      @ dbNotes responseBody
      @ originNotes request
      @ reuseNotes st actionId
      @ bindNotes parameters
      @ methodNotes request)"

definition analyzeSecurity ::
  "Env \<Rightarrow> State \<Rightarrow> Request \<Rightarrow> Response \<Rightarrow> string \<Rightarrow> string \<Rightarrow> string" where
  "analyzeSecurity env st request response actionId parameters =
     join ''; '' (securityNoteList env st request response actionId parameters)"

subsection \<open>Notes and invocations\<close>

text \<open>The constant \<open>prefix\<close> of \<open>ensureActionNotes\<close>, for a function name that is a string.\<close>

definition functionPrefix :: "string \<Rightarrow> string" where
  "functionPrefix functionName = ''Function: '' @ functionName"

text \<open>
  \<open>ensureActionNotes\<close>. Both lookups can find an inherited value. An inherited function
  name is not \<open>undefined\<close>, so the function goes on and puts its text into the prefix; an
  inherited note is not \<open>undefined\<close> either, and has no method \<open>includes\<close>: the call
  throws. When the name lookup finds nothing the key is no inherited name, so the note
  lookup finds an own property or nothing.
\<close>

definition ensureActionNotes :: "Env \<Rightarrow> State \<Rightarrow> string \<Rightarrow> thrown + State \<times> string" where
  "ensureActionNotes env st actionId =
     (let existing = getProp (actionNotesById st) actionId;
          functionName = getProp (actionNamesById st) actionId
      in case functionName of
           Missing \<Rightarrow> Inr (st, case existing of Own e \<Rightarrow> e | _ \<Rightarrow> [])
         | _ \<Rightarrow>
             (let prefixLine =
                    functionPrefix (case functionName of
                                      Own fn \<Rightarrow> fn
                                    | _ \<Rightarrow> inheritedText env actionId)
              in case existing of
                   Missing \<Rightarrow>
                     Inr (st\<lparr>actionNotesById :=
                                AList.update actionId prefixLine (actionNotesById st)\<rparr>,
                          prefixLine)
                 | Inherited \<Rightarrow> Inl (ErrorObject (notAFunction env))
                 | Own e \<Rightarrow>
                     if js_includes e prefixLine then Inr (st, e)
                     else (let updated = prefixLine @ [CHR 0x0A] @ e in
                           Inr (st\<lparr>actionNotesById :=
                                      AList.update actionId updated (actionNotesById st)\<rparr>,
                                updated))))"

text \<open>
  \<open>addActionEntry\<close>. The request identifier joins the seen set before anything else is
  done, so a throw of \<open>ensureActionNotes\<close> leaves it there with no invocation. The usage
  list is created only when the lookup is falsy, which an inherited value is not;
  spreading an inherited value throws, after the invocation has been appended.
\<close>

definition addActionEntry ::
  "Env \<Rightarrow> State \<Rightarrow> Request \<Rightarrow> Response \<Rightarrow> string \<Rightarrow> thrown option \<times> State" where
  "addActionEntry env st request response actionId =
     (let requestId = req_id request in
      if requestId \<in> seenRequestIds st then (None, st)
      else
        (let st1 = st\<lparr>seenRequestIds := insert requestId (seenRequestIds st)\<rparr>;
             parameters = getTextBody (req_body request);
             requestSize = req_rawLength request;
             responseSize = resp_rawLength response;
             statusCode = resp_code response;
             timestamp = resp_createdAt response;
             securityNotes = analyzeSecurity env st1 request response actionId parameters
         in case ensureActionNotes env st1 actionId of
              Inl e \<Rightarrow> (Some e, st1)
            | Inr (st2, actionNotes) \<Rightarrow>
                (let entry = \<lparr>ae_id = length (actions st2) + 1, ae_requestId = requestId,
                              ae_method = req_method request, ae_url = req_url request,
                              ae_actionId = actionId, ae_parameters = parameters,
                              ae_requestSize = requestSize, ae_responseSize = responseSize,
                              ae_statusCode = statusCode, ae_timestamp = timestamp,
                              ae_securityNotes = securityNotes,
                              ae_actionNotes = actionNotes\<rparr>;
                     st3 = st2\<lparr>actions := actions st2 @ [entry]\<rparr>;
                     st4 = (case getProp (actionUsagesById st3) actionId of
                              Missing \<Rightarrow>
                                st3\<lparr>actionUsagesById :=
                                      AList.update actionId [] (actionUsagesById st3)\<rparr>
                            | _ \<Rightarrow> st3)
                 in case getProp (actionUsagesById st4) actionId of
                      Own usages \<Rightarrow>
                        (None,
                         send (st4\<lparr>actionUsagesById :=
                                     AList.update actionId
                                       (usages @ [\<lparr>au_timestamp = timestamp,
                                                   au_url = ae_url entry,
                                                   au_method = ae_method entry,
                                                   au_statusCode = statusCode,
                                                   au_parameters = parameters,
                                                   au_securityNotes = securityNotes,
                                                   au_requestId = requestId\<rparr>])
                                       (actionUsagesById st4)\<rparr>)
                           (ActionAddedEvent entry))
                    | _ \<Rightarrow> (Some (ErrorObject (notIterable env)), st4))))"

definition processRequestResponse ::
  "Env \<Rightarrow> State \<Rightarrow> Request \<Rightarrow> Response option \<Rightarrow> thrown option \<times> State" where
  "processRequestResponse env st request response =
     (case response of
        None \<Rightarrow> (None, st)
      | Some resp \<Rightarrow>
          (case getNextActionIdFromRequest request of
             None \<Rightarrow> (None, st)
           | Some actionId \<Rightarrow> addActionEntry env st request resp actionId))"

subsection \<open>The live observer\<close>

record Finding =
  f_title :: string
  f_description :: string
  f_reporter :: string
  f_dedupeKey :: string
  f_request :: Request

text \<open>
  The handler that \<open>init\<close> registers with \<open>onInterceptResponse\<close>: what it throws, the new
  state and the finding handed to \<open>findings.create\<close>, if any. The handler has no \<open>catch\<close>:
  a throw of the per-pair routine ends it.
\<close>

definition onInterceptResponse ::
  "Env \<Rightarrow> State \<Rightarrow> Request \<Rightarrow> Response \<Rightarrow> thrown option \<times> State \<times> Finding option" where
  "onInterceptResponse env st request response =
     (case processRequestResponse env st request (Some response) of
        (Some e, st1) \<Rightarrow> (Some e, st1, None)
      | (None, st1) \<Rightarrow>
          (case getNextActionIdFromRequest request of
             None \<Rightarrow> (None, st1, None)
           | Some actionId \<Rightarrow>
               (let securityNotes =
                      analyzeSecurity env st1 request response actionId
                        (getTextBody (req_body request))
                in if \<not> js_includes securityNotes ''No auth headers'' then (None, st1, None)
                   else (None, st1,
                         Some \<lparr>f_title =
                                 ''Next.js Server Action without auth: '' @ take 8 actionId,
                               f_description = securityNotes,
                               f_reporter = ''Next.js Actions Analyzer'',
                               f_dedupeKey =
                                 req_host request @ ''-'' @ req_path request @ ''-''
                                   @ actionId,
                               f_request = request\<rparr>))))"

subsection \<open>Reset and analyst notes\<close>

definition clearAll :: "State \<Rightarrow> State" where
  "clearAll st =
     send (sendStatus (st\<lparr>actions := [], actionUsagesById := [], seenRequestIds := {}\<rparr>)
             ''Cleared'')
          DataChangedEvent"

definition setActionNote :: "State \<Rightarrow> string \<Rightarrow> string \<Rightarrow> State" where
  "setActionNote st actionId note =
     send (st\<lparr>actionNotesById := setProp actionId note (actionNotesById st),
              actions := map (\<lambda>a. if ae_actionId a \<noteq> actionId then a
                                   else a\<lparr>ae_actionNotes := note\<rparr>) (actions st)\<rparr>)
          DataChangedEvent"

subsection \<open>Traversing the traffic history\<close>

record Item =
  item_request :: Request
  item_response :: "Response option"

record Page =
  page_items :: "Item list"
  page_hasNextPage :: bool
  page_endCursor :: "string option"

text \<open>
  The traffic source is a function from the cursor of the query (\<open>None\<close>: a query with no
  \<open>after\<close>) to the page it returns or the value it throws. The loop passes a cursor on
  only when it is truthy, so an empty cursor string queries from the start again.
\<close>

definition queryCursor :: "string option \<Rightarrow> string option" where
  "queryCursor cursor =
     (case cursor of None \<Rightarrow> None | Some c \<Rightarrow> if c \<noteq> [] then Some c else None)"

text \<open>
  \<open>paginateAllRequests\<close>: the loop has no bound of its own and returns only when a page
  reports no next page, or a query or the callback \<open>onPage\<close> throws; \<open>None\<close> is the run
  that never returns. The state \<open>'s\<close> is everything \<open>onPage\<close> updates.
\<close>

partial_function (option) paginateAllRequests ::
  "(string option \<Rightarrow> thrown + Page) \<Rightarrow> (Page \<Rightarrow> 's \<Rightarrow> thrown option \<times> 's) \<Rightarrow> string option \<Rightarrow> 's
     \<Rightarrow> (thrown option \<times> 's) option" where
  "paginateAllRequests fetch onPage cursor s =
     (case fetch (queryCursor cursor) of
        Inl e \<Rightarrow> Some (Some e, s)
      | Inr page \<Rightarrow>
          (case onPage page s of
             (thrownValue, s') \<Rightarrow>
               (case thrownValue of
                  Some e \<Rightarrow> Some (Some e, s')
                | None \<Rightarrow>
                    if \<not> page_hasNextPage page then Some (None, s')
                    else paginateAllRequests fetch onPage (page_endCursor page) s')))"

subsection \<open>Scanning the history for invocations\<close>

text \<open>
  One turn of the loop over \<open>page.items\<close>: the counter \<open>scanned\<close> goes up before the pair is
  processed, the counter \<open>found\<close> after it.
\<close>

definition scanItem ::
  "Env \<Rightarrow> State \<times> nat \<times> nat \<Rightarrow> Item \<Rightarrow> thrown option \<times> State \<times> nat \<times> nat" where
  "scanItem env s item =
     (case s of (st, scanned, found) \<Rightarrow>
        (case processRequestResponse env st (item_request item) (item_response item) of
           (Some e, st') \<Rightarrow> (Some e, (st', scanned + 1, found))
         | (None, st') \<Rightarrow>
             (None,
              (st', scanned + 1,
               (case getNextActionIdFromRequest (item_request item) of
                  None \<Rightarrow> found
                | Some _ \<Rightarrow> found + 1)))))"



text \<open>
  \<open>analyzeRequestsById\<close>: \<open>get\<close> is the point lookup of the traffic source, which returns a
  pair, returns nothing, or throws.
\<close>

fun analyzeLoop ::
  "(string \<Rightarrow> thrown + Item option) \<Rightarrow> Env \<Rightarrow> string list \<Rightarrow> State \<times> nat \<times> nat
     \<Rightarrow> thrown option \<times> State \<times> nat \<times> nat" where
  "analyzeLoop get env [] s = (None, s)"
| "analyzeLoop get env (i # ids) (st, analyzed, found) =
     (case get i of
        Inl e \<Rightarrow> (Some e, (st, analyzed, found))
      | Inr pair \<Rightarrow>
          (case pair of
             None \<Rightarrow> analyzeLoop get env ids (st, analyzed + 1, found)
           | Some item \<Rightarrow>
               (case item_response item of
                  None \<Rightarrow> analyzeLoop get env ids (st, analyzed + 1, found)
                | Some response \<Rightarrow>
                    (case getNextActionIdFromRequest (item_request item) of
                       None \<Rightarrow> analyzeLoop get env ids (st, analyzed + 1, found)
                     | Some actionId \<Rightarrow>
                         (case addActionEntry env st (item_request item) response actionId of
                            (Some e, st') \<Rightarrow> (Some e, (st', analyzed + 1, found + 1))
                          | (None, st') \<Rightarrow>
                              analyzeLoop get env ids (st', analyzed + 1, found + 1))))))"

definition analyzeRequestsById ::
  "(string \<Rightarrow> thrown + Item option) \<Rightarrow> Env \<Rightarrow> State \<Rightarrow> string list
     \<Rightarrow> (nat \<times> nat) Result \<times> State" where
  "analyzeRequestsById get env st requestIds =
     (case analyzeLoop get env requestIds (st, 0, 0) of
        (None, (st', analyzed, found)) \<Rightarrow> (Ok (analyzed, found), send st' DataChangedEvent)
      | (Some e, (st', analyzed, found)) \<Rightarrow> (Error (errorMessage e), st'))"

subsection \<open>Extracting names and declared actions from chunks\<close>

text \<open>
  The checks on one match: both captures present and not empty, and a function name that
  does not start with \<open>$\<close> or \<open>_\<close>.
\<close>

definition acceptedMatch :: "string option \<times> string option \<Rightarrow> (string \<times> string) option" where
  "acceptedMatch m =
     (case m of (actionId, functionName) \<Rightarrow>
        (case actionId of
           None \<Rightarrow> None
         | Some a \<Rightarrow>
             if a = [] then None
             else (case functionName of
                     None \<Rightarrow> None
                   | Some f \<Rightarrow>
                       if f = [] then None
                       else if startsWith f ''$'' \<or> startsWith f ''_'' then None
                       else Some (a, f))))"

text \<open>
  What the two groups of a pattern can capture. In each of the eight patterns the first
  group is \<open>[a-fA-F0-9]{40,}\<close> or \<open>[a-f0-9]{40,}\<close> and the second \<open>[^"']+\<close> or \<open>[^"]+\<close>, and
  both take part in every match: the first capture is forty or more hexadecimal digits,
  the second is not empty and holds no double quote.
\<close>

definition isHexDigit :: "char \<Rightarrow> bool" where
  "isHexDigit c = (c \<in> set ''0123456789abcdefABCDEF'')"

definition fitsGroups :: "string option \<times> string option \<Rightarrow> bool" where
  "fitsGroups m =
     (case m of
        (Some a, Some f) \<Rightarrow>
          40 \<le> length a \<and> list_all isHexDigit a \<and> f \<noteq> [] \<and> CHR 0x22 \<notin> set f
      | _ \<Rightarrow> False)"

text \<open>
  The two nested loops over the patterns and over \<open>body.matchAll(pattern)\<close>; what the
  groups cannot capture is no match.
\<close>

definition allMatches ::
  "(string \<Rightarrow> (string option \<times> string option) list) list \<Rightarrow> string
     \<Rightarrow> (string option \<times> string option) list" where
  "allMatches patterns body =
     filter fitsGroups (concat (map (\<lambda>pattern. pattern body) patterns))"

text \<open>The guards of both passes on an item: a response, a chunk path, the marker text.\<close>

definition chunkBody :: "Item \<Rightarrow> string option" where
  "chunkBody item =
     (case item_response item of
        None \<Rightarrow> None
      | Some response \<Rightarrow>
          if \<not> isNextChunkRequest (item_request item) then None
          else (let body = getTextBody (resp_body response) in
                if \<not> js_includes body ''createServerReference'' then None else Some body))"

definition nameMatch :: "State \<times> nat \<Rightarrow> string option \<times> string option \<Rightarrow> State \<times> nat" where
  "nameMatch s m =
     (case s of (st, namesExtracted) \<Rightarrow>
        (case acceptedMatch m of
           None \<Rightarrow> (st, namesExtracted)
         | Some (actionId, functionName) \<Rightarrow>
             (case getProp (actionNamesById st) actionId of
                Missing \<Rightarrow>
                  (st\<lparr>actionNamesById :=
                        AList.update actionId functionName (actionNamesById st)\<rparr>,
                   namesExtracted + 1)
              | _ \<Rightarrow> (st, namesExtracted))))"

definition nameItem :: "Env \<Rightarrow> State \<times> nat \<times> nat \<Rightarrow> Item \<Rightarrow> State \<times> nat \<times> nat" where
  "nameItem env s item =
     (case s of (st, scannedChunks, namesExtracted) \<Rightarrow>
        (case chunkBody item of
           None \<Rightarrow> (st, scannedChunks, namesExtracted)
         | Some body \<Rightarrow>
             (case foldl nameMatch (st, namesExtracted) (allMatches (namePatterns env) body) of
                (st', namesExtracted') \<Rightarrow> (st', scannedChunks + 1, namesExtracted'))))"

text \<open>The callback of the name-extraction pass; nothing in it can throw.\<close>

definition namePage :: "Env \<Rightarrow> Page \<Rightarrow> State \<times> nat \<times> nat \<Rightarrow> State \<times> nat \<times> nat" where
  "namePage env page s =
     (case foldl (nameItem env) s (page_items page) of (st, scannedChunks, namesExtracted) \<Rightarrow>
        (sendStatus st (''Scanning chunk files... '' @ show_nat scannedChunks),
         scannedChunks, namesExtracted))"

text \<open>
  The loop over \<open>Object.keys(actionNamesById)\<close> after the traversal, which stops when
  \<open>ensureActionNotes\<close> throws.
\<close>

definition ensureNotesOf :: "Env \<Rightarrow> State \<Rightarrow> string \<Rightarrow> thrown option \<times> State" where
  "ensureNotesOf env st actionId =
     (case ensureActionNotes env st actionId of
        Inl e \<Rightarrow> (Some e, st)
      | Inr (st', _) \<Rightarrow> (None, st'))"

definition ensureAllNotes :: "Env \<Rightarrow> State \<Rightarrow> thrown option \<times> State" where
  "ensureAllNotes env st = forEach (ensureNotesOf env) (map fst (actionNamesById st)) st"

text \<open>
  The invocation list is rebuilt with the current notes. An invocation whose identifier
  is an inherited name was created only after \<open>ensureActionNotes\<close> had found an own note
  for it, and notes are never deleted: the lookup finds an own property or nothing.
\<close>

definition refreshEntryNotes :: "State \<Rightarrow> State" where
  "refreshEntryNotes st =
     st\<lparr>actions := map (\<lambda>a. case getProp (actionNotesById st) (ae_actionId a) of
                                Own notes \<Rightarrow> a\<lparr>ae_actionNotes := notes\<rparr>
                              | _ \<Rightarrow> a) (actions st)\<rparr>"

definition extractActionNames ::
  "(string option \<Rightarrow> thrown + Page) \<Rightarrow> Env \<Rightarrow> State \<Rightarrow> ((nat \<times> nat) Result \<times> State) option" where
  "extractActionNames fetch env st =
     (case paginateAllRequests fetch (\<lambda>page s. (None, namePage env page s)) None
             (sendStatus st ''Scanning chunk files...'', 0, 0) of
        None \<Rightarrow> None
      | Some (Some e, (st', scannedChunks, namesExtracted)) \<Rightarrow>
          Some (Error (errorMessage e), sendStatus st' ''Action name extraction failed'')
      | Some (None, (st', scannedChunks, namesExtracted)) \<Rightarrow>
          (case ensureAllNotes env st' of
             (Some e, st'') \<Rightarrow>
               Some (Error (errorMessage e), sendStatus st'' ''Action name extraction failed'')
           | (None, st'') \<Rightarrow>
               Some (Ok (scannedChunks, namesExtracted),
                     sendStatus (send (refreshEntryNotes st'') DataChangedEvent)
                       (''Extracted '' @ show_nat namesExtracted @ '' action names (''
                          @ show_nat scannedChunks @ '' chunks scanned)''))))"

subsection \<open>The classification view\<close>

text \<open>
  \<open>new Set(actions.map((a) => a.actionId))\<close> in its iteration order: each identifier once,
  at its first occurrence.
\<close>

definition executedActionIds :: "State \<Rightarrow> string list" where
  "executedActionIds st = rev (remdups (rev (map ae_actionId (actions st))))"

text \<open>
  The names of the executed identifiers in the name table; \<open>filter(Boolean)\<close> drops an
  identifier with no name and an empty name. The set is used for membership of a
  string only, so an inherited value, which equals no string, adds nothing.
\<close>

definition executedFunctionNames :: "State \<Rightarrow> string list" where
  "executedFunctionNames st =
     concat (map (\<lambda>i. case getProp (actionNamesById st) i of
                          Own v \<Rightarrow> if v \<noteq> [] then [v] else []
                        | _ \<Rightarrow> [])
               (executedActionIds st))"

text \<open>
  The row of a declared action. Declared identifiers are captures of the patterns, so
  the lookup of the note finds an own property or nothing.
\<close>

definition discoveredRow :: "State \<Rightarrow> DiscoveredActionInternal \<Rightarrow> DiscoveredAction" where
  "discoveredRow st discovered =
     (let executedCount = reusedCount st (di_actionId discovered);
          notes = (case getProp (actionNotesById st) (di_actionId discovered) of
                     Own n \<Rightarrow> n | _ \<Rightarrow> []);
          status =
            (if di_actionId discovered \<in> set (executedActionIds st) then ''Executed''
             else if di_functionName discovered \<in> set (executedFunctionNames st)
               then ''Unused (Function executed with different ID)''
             else ''Never Executed'')
      in \<lparr>da_actionId = di_actionId discovered,
          da_functionName = di_functionName discovered,
          da_status = status,
          da_chunkFile = di_chunkFile discovered,
          da_executedCount = executedCount,
          da_notes = notes\<rparr>)"

text \<open>
  The row of an executed identifier for which the lookup in the declared actions is
  falsy: the identifier is then no inherited name, and the lookups of its name and of its
  note find an own property or nothing.
\<close>

definition unknownRow :: "State \<Rightarrow> string \<Rightarrow> DiscoveredAction" where
  "unknownRow st executedId =
     \<lparr>da_actionId = executedId,
      da_functionName = (case getProp (actionNamesById st) executedId of
                           Own n \<Rightarrow> n | _ \<Rightarrow> ''Unknown''),
      da_status = ''Executed (No source found)'',
      da_chunkFile = ''Not found'',
      da_executedCount = reusedCount st executedId,
      da_notes = (case getProp (actionNotesById st) executedId of Own n \<Rightarrow> n | _ \<Rightarrow> [])\<rparr>"

definition allRows :: "State \<Rightarrow> DiscoveredAction list" where
  "allRows st = map (discoveredRow st) (map snd (discoveredActionsById st))"

definition unusedRows :: "State \<Rightarrow> DiscoveredAction list" where
  "unusedRows st = filter (\<lambda>row. da_status row = ''Never Executed'') (allRows st)"

definition unknownRows :: "State \<Rightarrow> DiscoveredAction list" where
  "unknownRows st =
     map (unknownRow st)
       (filter (\<lambda>executedId. getProp (discoveredActionsById st) executedId = Missing)
          (executedActionIds st))"

definition getDiscovery :: "State \<Rightarrow> DiscoveryResult" where
  "getDiscovery st =
     \<lparr>dr_status = [], dr_all = allRows st, dr_unused = unusedRows st,
      dr_unknown = unknownRows st\<rparr>"

definition getActions :: "State \<Rightarrow> ActionEntry list" where
  "getActions st = actions st"

text \<open>
  \<open>getChunkRequestIdForAction\<close>; an inherited value is truthy and has no
  \<open>chunkRequestId\<close>, so the result carries \<open>undefined\<close>.
\<close>

definition getChunkRequestIdForAction :: "State \<Rightarrow> string \<Rightarrow> string option Result" where
  "getChunkRequestIdForAction st actionId =
     (case getProp (discoveredActionsById st) actionId of
        Missing \<Rightarrow> Error ''No chunk request found for action''
      | Inherited \<Rightarrow> Ok None
      | Own discovered \<Rightarrow> Ok (Some (di_chunkRequestId discovered)))"

subsection \<open>The full discovery pass\<close>

definition discoverMatch ::
  "Env \<Rightarrow> string \<Rightarrow> string \<Rightarrow> State \<Rightarrow> string option \<times> string option
     \<Rightarrow> thrown option \<times> State" where
  "discoverMatch env chunkFile requestId st m =
     (case acceptedMatch m of
        None \<Rightarrow> (None, st)
      | Some (actionId, functionName) \<Rightarrow>
          (case getProp (discoveredActionsById st) actionId of
             Missing \<Rightarrow>
               (let firstSeen = clock env (ticks st);
                    st1 = st\<lparr>ticks := ticks st + 1,
                             discoveredActionsById :=
                               AList.update actionId
                                 \<lparr>di_actionId = actionId, di_functionName = functionName,
                                  di_chunkFile = chunkFile, di_firstSeen = firstSeen,
                                  di_chunkRequestId = requestId\<rparr>
                                 (discoveredActionsById st)\<rparr>
                in case getProp (actionNamesById st1) actionId of
                     Missing \<Rightarrow>
                       ensureNotesOf env
                         (st1\<lparr>actionNamesById :=
                                AList.update actionId functionName (actionNamesById st1)\<rparr>)
                         actionId
                   | _ \<Rightarrow> (None, st1))
           | _ \<Rightarrow> (None, st)))"

text \<open>\<open>request.getPath().split("/").pop() ?? "Unknown"\<close>.\<close>

definition chunkFileOf :: "Request \<Rightarrow> string" where
  "chunkFileOf request =
     (case rev (split_on (CHR ''/'') (req_path request)) of
        [] \<Rightarrow> ''Unknown''
      | file # _ \<Rightarrow> file)"

definition discoverItem :: "Env \<Rightarrow> State \<times> nat \<Rightarrow> Item \<Rightarrow> thrown option \<times> State \<times> nat" where
  "discoverItem env s item =
     (case s of (st, chunksFound) \<Rightarrow>
        (case chunkBody item of
           None \<Rightarrow> (None, (st, chunksFound))
         | Some body \<Rightarrow>
             (case forEach (discoverMatch env (chunkFileOf (item_request item))
                              (req_id (item_request item)))
                     (allMatches (discoveryPatterns env) body) st of
                (thrownValue, st') \<Rightarrow> (thrownValue, (st', chunksFound + 1)))))"

definition discoverPage :: "Env \<Rightarrow> Page \<Rightarrow> State \<times> nat \<Rightarrow> thrown option \<times> State \<times> nat" where
  "discoverPage env page s =
     (case forEach (discoverItem env) (page_items page) s of
        (Some e, s') \<Rightarrow> (Some e, s')
      | (None, (st, chunksFound)) \<Rightarrow>
          (None, (sendStatus st (''Scanning chunks... '' @ show_nat chunksFound), chunksFound)))"

definition findAllActions ::
  "(string option \<Rightarrow> thrown + Page) \<Rightarrow> Env \<Rightarrow> State \<Rightarrow> (DiscoveryResult Result \<times> State) option" where
  "findAllActions fetch env st =
     (case paginateAllRequests fetch (discoverPage env) None
             (sendStatus (st\<lparr>discoveredActionsById := []\<rparr>)
                ''Scanning chunks for server actions...'', 0) of
        None \<Rightarrow> None
      | Some (None, (st', chunksFound)) \<Rightarrow>
          (let status = ''Found '' @ show_nat (length (allRows st')) @ '' actions (''
                          @ show_nat (length (unusedRows st')) @ '' unused)''
           in Some (Ok \<lparr>dr_status = status, dr_all = allRows st', dr_unused = unusedRows st',
                         dr_unknown = unknownRows st'\<rparr>,
                    send (sendStatus st' status) DataChangedEvent))
      | Some (Some e, (st', chunksFound)) \<Rightarrow>
          Some (Error (errorMessage e), sendStatus st' ''Discovery failed''))"

section \<open>Notions used in the statements\<close>


text \<open>
  A run of the traffic source from a cursor: the pages it returned, in order, and how the
  run ended (\<open>None\<close>: the last page reported no next page; \<open>Some e\<close>: the query after the
  listed pages threw \<open>e\<close>).
\<close>

inductive traversal ::
  "(string option \<Rightarrow> thrown + Page) \<Rightarrow> string option \<Rightarrow> Page list \<Rightarrow> thrown option \<Rightarrow> bool"
  for fetch :: "string option \<Rightarrow> thrown + Page" where
  failed: "fetch (queryCursor cursor) = Inl e \<Longrightarrow> traversal fetch cursor [] (Some e)"
| lastPage: "fetch (queryCursor cursor) = Inr page \<Longrightarrow> \<not> page_hasNextPage page
     \<Longrightarrow> traversal fetch cursor [page] None"
| nextPage: "fetch (queryCursor cursor) = Inr page \<Longrightarrow> page_hasNextPage page
     \<Longrightarrow> traversal fetch (page_endCursor page) pages outcome
     \<Longrightarrow> traversal fetch cursor (page # pages) outcome"

text \<open>
  What a callback makes of such a run: the pages are handed to it in order until it
  throws; when it never does, the run ends as the source ended it.
\<close>

definition pagesRun ::
  "(Page \<Rightarrow> 's \<Rightarrow> thrown option \<times> 's) \<Rightarrow> Page list \<Rightarrow> thrown option \<Rightarrow> 's \<Rightarrow> thrown option \<times> 's" where
  "pagesRun onPage pages outcome s =
     (case forEach (\<lambda>s' page. onPage page s') pages s of
        (Some e, s') \<Rightarrow> (Some e, s')
      | (None, s') \<Rightarrow> (outcome, s'))"

text \<open>An identifier that is not the name of an inherited property.\<close>

definition ordinaryKey :: "string \<Rightarrow> bool" where
  "ordinaryKey key = (key \<notin> set prototypeKeys)"

text \<open>The usage records of all identifiers, and the number of entries per request.\<close>

definition allUsages :: "State \<Rightarrow> ActionUsage list" where
  "allUsages st = concat (map snd (actionUsagesById st))"

definition priorUsages :: "State \<Rightarrow> string \<Rightarrow> ActionUsage list" where
  "priorUsages st actionId =
     (case map_of (actionUsagesById st) actionId of None \<Rightarrow> [] | Some us \<Rightarrow> us)"

definition countInvocations :: "State \<Rightarrow> string \<Rightarrow> nat" where
  "countInvocations st requestId =
     length (filter (\<lambda>a. ae_requestId a = requestId) (actions st))"

definition countUsages :: "State \<Rightarrow> string \<Rightarrow> nat" where
  "countUsages st requestId =
     length (filter (\<lambda>u. au_requestId u = requestId) (allUsages st))"

text \<open>
  The invariant behind deduplication: a request identifier has one invocation and one
  usage record when it is in the seen set, and none otherwise.
\<close>

definition storeInv :: "State \<Rightarrow> bool" where
  "storeInv st =
     (\<forall>requestId.
        countInvocations st requestId = (if requestId \<in> seenRequestIds st then 1 else 0)
      \<and> countUsages st requestId = (if requestId \<in> seenRequestIds st then 1 else 0))"

text \<open>
  The state and the note that \<open>ensureActionNotes\<close> returns; when it throws, the state is
  the one it was called in.
\<close>

definition notesEnsured :: "Env \<Rightarrow> State \<Rightarrow> string \<Rightarrow> State" where
  "notesEnsured env st actionId =
     (case ensureActionNotes env st actionId of Inl _ \<Rightarrow> st | Inr (st', _) \<Rightarrow> st')"

definition noteEnsured :: "Env \<Rightarrow> State \<Rightarrow> string \<Rightarrow> string" where
  "noteEnsured env st actionId =
     (case ensureActionNotes env st actionId of Inl _ \<Rightarrow> [] | Inr (_, note) \<Rightarrow> note)"

text \<open>
  The invocation and the usage record that \<open>addActionEntry\<close> builds for a request it has
  not seen, written over the state before the call.
\<close>

definition newEntry :: "Env \<Rightarrow> State \<Rightarrow> Request \<Rightarrow> Response \<Rightarrow> string \<Rightarrow> ActionEntry" where
  "newEntry env st request response actionId =
     \<lparr>ae_id = length (actions st) + 1, ae_requestId = req_id request,
      ae_method = req_method request, ae_url = req_url request,
      ae_actionId = actionId, ae_parameters = getTextBody (req_body request),
      ae_requestSize = req_rawLength request, ae_responseSize = resp_rawLength response,
      ae_statusCode = resp_code response, ae_timestamp = resp_createdAt response,
      ae_securityNotes =
        analyzeSecurity env st request response actionId (getTextBody (req_body request)),
      ae_actionNotes = noteEnsured env st actionId\<rparr>"

definition newUsage :: "Env \<Rightarrow> State \<Rightarrow> Request \<Rightarrow> Response \<Rightarrow> string \<Rightarrow> ActionUsage" where
  "newUsage env st request response actionId =
     \<lparr>au_timestamp = resp_createdAt response, au_url = req_url request,
      au_method = req_method request, au_statusCode = resp_code response,
      au_parameters = getTextBody (req_body request),
      au_securityNotes =
        analyzeSecurity env st request response actionId (getTextBody (req_body request)),
      au_requestId = req_id request\<rparr>"



text \<open>
  The pairs a pass accepts, in the order of its traversal: page by page, item by item,
  pattern by pattern, match by match.
\<close>

definition itemMatches ::
  "(string \<Rightarrow> (string option \<times> string option) list) list \<Rightarrow> Item \<Rightarrow> (string \<times> string) list" where
  "itemMatches patterns item =
     (case chunkBody item of
        None \<Rightarrow> []
      | Some body \<Rightarrow> List.map_filter acceptedMatch (allMatches patterns body))"

definition passMatches ::
  "(string \<Rightarrow> (string option \<times> string option) list) list \<Rightarrow> Page list
     \<Rightarrow> (string \<times> string) list" where
  "passMatches patterns pages =
     concat (map (itemMatches patterns) (concat (map page_items pages)))"

text \<open>Two states that differ at most in the name table and in the events sent.\<close>

definition sameButNames :: "State \<Rightarrow> State \<Rightarrow> bool" where
  "sameButNames st' st =
     (actions st' = actions st \<and> actionNotesById st' = actionNotesById st
      \<and> discoveredActionsById st' = discoveredActionsById st
      \<and> actionUsagesById st' = actionUsagesById st
      \<and> seenRequestIds st' = seenRequestIds st \<and> ticks st' = ticks st)"


text \<open>
  The function name that the declared-action mapping stores for an identifier, and the
  mapping's key discipline: every entry sits under its own identifier, once.
\<close>

definition declaredNames :: "State \<Rightarrow> string \<Rightarrow> string option" where
  "declaredNames st = (\<lambda>a. map_option di_functionName (map_of (discoveredActionsById st) a))"

definition keyedById :: "State \<Rightarrow> bool" where
  "keyedById st =
     (distinct (map fst (discoveredActionsById st))
      \<and> (\<forall>(k, d) \<in> set (discoveredActionsById st). di_actionId d = k))"

text \<open>How often a text occurs in a note, and how many lines of the note equal it.\<close>

fun occurrences :: "string \<Rightarrow> string \<Rightarrow> nat" where
  "occurrences p [] = (if p = [] then 1 else 0)"
| "occurrences p (c # cs) = (if prefix p (c # cs) then 1 else 0) + occurrences p cs"

definition linesEqual :: "string \<Rightarrow> string \<Rightarrow> nat" where
  "linesEqual p note = length (filter (\<lambda>l. l = p) (split_on (CHR 0x0A) note))"


text \<open>A text in which one given character is somewhere followed at once by another.\<close>

fun hasPair :: "char \<Rightarrow> char \<Rightarrow> string \<Rightarrow> bool" where
  "hasPair a b (x # y # r) = ((x = a \<and> y = b) \<or> hasPair a b (y # r))"
| "hasPair a b r = False"

text \<open>
  The note that the maintenance leaves for an identifier with the function name \<open>fn\<close>
  and the earlier note \<open>old\<close>: with no earlier note, the prefix line; an earlier note
  that contains the prefix anywhere, unchanged; any other earlier note, verbatim below
  the prefix line.
\<close>

definition keptNote :: "string \<Rightarrow> string option \<Rightarrow> string" where
  "keptNote fn old =
     (case old of
        None \<Rightarrow> functionPrefix fn
      | Some e \<Rightarrow>
          if js_includes e (functionPrefix fn) then e else functionPrefix fn @ [CHR 0x0A] @ e)"

text \<open>A name table none of whose keys is the name of an inherited property.\<close>

definition ordinaryNames :: "State \<Rightarrow> bool" where
  "ordinaryNames st = list_all ordinaryKey (map fst (actionNamesById st))"

subsection \<open>Sample values\<close>

definition sampleActionId :: string where
  "sampleActionId = ''deadbeefdeadbeefdeadbeefdeadbeefdeadbeef''"

definition firstChunkId :: string where
  "firstChunkId = ''aaaaaaaaaaaaaaaaaaaaaaaaaaaaaaaaaaaaaaaa''"

definition secondChunkId :: string where
  "secondChunkId = ''bbbbbbbbbbbbbbbbbbbbbbbbbbbbbbbbbbbbbbbb''"

text \<open>
  An environment whose patterns find, in the chunk body \<open>createServerReference A\<close>, the
  first identifier twice (as \<open>foo\<close>, then as \<open>bar\<close>) and, in the chunk body
  \<open>createServerReference B\<close>, both identifiers as \<open>bar\<close>; and whose parser knows one body.
\<close>

definition sampleEnv :: Env where
  \<open>sampleEnv = \<lparr>
     JSON_parse = (\<lambda>t. if t = ''[1, {"Action reused 0x id": 1}]'' then
                          Some (JArray [JNumber True ''1'',
                                        JObject [(''Action reused 0x id'', JNumber True ''1'')]])
                        else if t = ''[1, {"No auth headers id": 1}]'' then
                          Some (JArray [JNumber True ''1'',
                                        JObject [(''No auth headers id'', JNumber True ''1'')]])
                        else None),
     errorPatterns = [],
     namePatterns = [\<lambda>body. if body = ''createServerReference A'' then
                               [(Some firstChunkId, Some ''foo''), (Some firstChunkId, Some ''bar'')]
                             else if body = ''createServerReference B'' then
                               [(Some firstChunkId, Some ''bar''), (Some secondChunkId, Some ''bar'')]
                             else []],
     discoveryPatterns = [\<lambda>body. if body = ''createServerReference A'' then
                               [(Some firstChunkId, Some ''foo''), (Some firstChunkId, Some ''bar'')]
                             else if body = ''createServerReference B'' then
                               [(Some firstChunkId, Some ''bar''), (Some secondChunkId, Some ''bar'')]
                             else []],
     clock = (\<lambda>_. ''2024-01-01T00:00:00.000Z''),
     inheritedText = (\<lambda>_. ''function () { [native code] }''),
     notAFunction = ''not a function'',
     notIterable = ''not iterable''\<rparr>\<close>

definition sampleRequest :: Request where
  "sampleRequest = \<lparr>req_id = ''1'', req_host = ''example.com'', req_path = ''/checkout'',
     req_method = ''POST'', req_url = ''https://example.com/checkout'',
     req_headers = [(''Host'', [''example.com'']), (''Next-Action'', [sampleActionId])],
     req_body = Some ''[]'', req_rawLength = 120\<rparr>"


text \<open>A request whose action identifier is a name that every plain object inherits.\<close>

definition inheritedNameRequest :: Request where
  "inheritedNameRequest =
     sampleRequest\<lparr>req_id := ''2'', req_headers := [(''Next-Action'', [''constructor''])]\<rparr>"

text \<open>
  A first invocation whose body has an object key that spells a reuse note; and an
  authenticated request.
\<close>

definition quotingRequest :: Request where
  \<open>quotingRequest = sampleRequest\<lparr>req_body := Some ''[1, {"Action reused 0x id": 1}]''\<rparr>\<close>


definition sampleResponse :: Response where
  "sampleResponse = \<lparr>resp_code = 200, resp_body = Some ''ok'', resp_rawLength = 64,
     resp_createdAt = ''2024-01-01T00:00:00.000Z''\<rparr>"

definition chunkRequest :: Request where
  "chunkRequest = \<lparr>req_id = ''7'', req_host = ''example.com'',
     req_path = ''/_next/static/chunks/app.js'', req_method = ''GET'',
     req_url = ''https://example.com/_next/static/chunks/app.js'',
     req_headers = [], req_body = None, req_rawLength = 80\<rparr>"

definition chunkResponse :: Response where
  "chunkResponse = \<lparr>resp_code = 200, resp_body = Some ''createServerReference A'',
     resp_rawLength = 23, resp_createdAt = ''2024-01-01T00:00:00.000Z''\<rparr>"

definition samplePage :: Page where
  "samplePage = \<lparr>page_items =
       [\<lparr>item_request = sampleRequest, item_response = Some sampleResponse\<rparr>,
        \<lparr>item_request = chunkRequest, item_response = Some chunkResponse\<rparr>],
     page_hasNextPage = True, page_endCursor = Some ''c1''\<rparr>"


text \<open>A store in which the sample identifier already has eleven usage records.\<close>

definition sampleUsage :: ActionUsage where
  "sampleUsage = \<lparr>au_timestamp = ''2024-01-01T00:00:00.000Z'',
     au_url = ''https://example.com/checkout'', au_method = ''POST'', au_statusCode = 200,
     au_parameters = ''[]'', au_securityNotes = ''No auth headers'', au_requestId = ''0''\<rparr>"

definition busyState :: State where
  "busyState = initial\<lparr>actionUsagesById := [(sampleActionId, replicate 11 sampleUsage)]\<rparr>"

text \<open>A store that already has a name for the first identifier of the sample chunk.\<close>

definition namedState :: State where
  "namedState = initial\<lparr>actionNamesById := [(firstChunkId, ''oldName'')]\<rparr>"

text \<open>
  The same store after the analyst has saved a note: a plain one, one with the prefix
  line written twice, and one that only quotes the prefix inside a sentence. And the
  empty store after the analyst has saved a note for the identifier of the sample chunk,
  which has no name yet.
\<close>

definition annotatedState :: State where
  "annotatedState = setActionNote namedState firstChunkId ''check auth''"

definition doubledNoteState :: State where
  "doubledNoteState =
     setActionNote namedState firstChunkId
       (''Function: oldName'' @ [CHR 0x0A] @ ''Function: oldName'')"

definition quotedNoteState :: State where
  "quotedNoteState = setActionNote namedState firstChunkId ''see Function: oldNames later''"

definition earlyNoteState :: State where
  "earlyNoteState = setActionNote initial firstChunkId ''check auth''"

text \<open>
  A store with three declared actions, two of them with the function name \<open>checkout\<close>,
  and two invocations: one of the first declared identifier and one of an identifier
  that no chunk declares.
\<close>

definition collisionState :: State where
  "collisionState = initial
     \<lparr>actions :=
        [newEntry sampleEnv initial (sampleRequest\<lparr>req_id := ''11''\<rparr>) sampleResponse ''xxxx'',
         newEntry sampleEnv initial (sampleRequest\<lparr>req_id := ''12''\<rparr>) sampleResponse ''zzzz''],
      actionNamesById := [(''xxxx'', ''checkout''), (''yyyy'', ''checkout''), (''wwww'', ''refund'')],
      discoveredActionsById :=
        [(''xxxx'', \<lparr>di_actionId = ''xxxx'', di_functionName = ''checkout'',
                     di_chunkFile = ''app.js'', di_firstSeen = ''2024-01-01T00:00:00.000Z'',
                     di_chunkRequestId = ''7''\<rparr>),
         (''yyyy'', \<lparr>di_actionId = ''yyyy'', di_functionName = ''checkout'',
                     di_chunkFile = ''app.js'', di_firstSeen = ''2024-01-01T00:00:00.000Z'',
                     di_chunkRequestId = ''7''\<rparr>),
         (''wwww'', \<lparr>di_actionId = ''wwww'', di_functionName = ''refund'',
                     di_chunkFile = ''app.js'', di_firstSeen = ''2024-01-01T00:00:00.000Z'',
                     di_chunkRequestId = ''7''\<rparr>)],
      seenRequestIds := {''11'', ''12''}\<rparr>"


text \<open>
  A source with one page; one whose second query throws; and one whose only page holds
  the pair with the inherited name.
\<close>

definition onePageSource :: "string option \<Rightarrow> thrown + Page" where
  "onePageSource cursor = Inr (samplePage\<lparr>page_hasNextPage := False\<rparr>)"



section \<open>Properties\<close>

subsection \<open>Lookups and loops\<close>

lemma getProp_ordinary:
  "ordinaryKey key \<Longrightarrow>
     getProp table key = (case map_of table key of Some v \<Rightarrow> Own v | None \<Rightarrow> Missing)"
  by (simp add: getProp_def ordinaryKey_def split: option.splits)

lemma getProp_Own_iff: "getProp table key = Own v \<longleftrightarrow> map_of table key = Some v"
  by (simp add: getProp_def split: option.splits)

lemma getProp_Missing_iff:
  "getProp table key = Missing \<longleftrightarrow> map_of table key = None \<and> ordinaryKey key"
  by (simp add: getProp_def ordinaryKey_def split: option.splits)

lemma getProp_Inherited_iff:
  "getProp table key = Inherited \<longleftrightarrow> map_of table key = None \<and> \<not> ordinaryKey key"
  by (simp add: getProp_def ordinaryKey_def split: option.splits)

text \<open>Every inherited name is shorter than forty characters.\<close>

lemma long_key_ordinary: "40 \<le> length key \<Longrightarrow> ordinaryKey key"
  by (auto simp: ordinaryKey_def prototypeKeys_def)

lemma forEach_total:
  "(\<And>s x. x \<in> set xs \<Longrightarrow> fst (body s x) = None) \<Longrightarrow>
     forEach body xs s = (None, foldl (\<lambda>s' x. snd (body s' x)) s xs)"
proof (induction xs arbitrary: s)
  case Nil
  then show ?case by simp
next
  case (Cons x xs)
  have "fst (body s x) = None" using Cons.prems by simp
  then have b: "body s x = (None, snd (body s x))" by (cases "body s x") simp
  have "forEach body (x # xs) s = forEach body xs (snd (body s x))"
    by (subst forEach.simps, subst b) simp
  also have "\<dots> = (None, foldl (\<lambda>s' x. snd (body s' x)) (snd (body s x)) xs)"
    using Cons.prems by (intro Cons.IH) simp
  finally show ?case by simp
qed


subsection \<open>Requests without an action identifier\<close>





subsection \<open>The reset\<close>

text \<open>
  C2, as the code has it: \<open>clearAll\<close> empties the invocation list, the usage history and
  the set of seen request identifiers, and leaves the declared actions, the notes and the
  name table as they were. The views built from invocations are empty afterwards.
\<close>

theorem C2_clearAll_clears_invocations_only:
  "actions (clearAll st) = []
   \<and> actionUsagesById (clearAll st) = []
   \<and> seenRequestIds (clearAll st) = {}
   \<and> getActions (clearAll st) = []
   \<and> dr_unknown (getDiscovery (clearAll st)) = []
   \<and> discoveredActionsById (clearAll st) = discoveredActionsById st
   \<and> actionNotesById (clearAll st) = actionNotesById st
   \<and> actionNamesById (clearAll st) = actionNamesById st"
  by (simp add: clearAll_def send_def sendStatus_def getActions_def getDiscovery_def
      unknownRows_def executedActionIds_def)

text \<open>
  The claim as stated fails: a note saved by the analyst, and a declared action, are
  still there after the reset.
\<close>

theorem C2_clearAll_counterexample:
  "actionNotesById (clearAll (setActionNote initial ''aaaa'' ''checked'')) = [(''aaaa'', ''checked'')]
   \<and> discoveredActionsById
        (clearAll (initial\<lparr>discoveredActionsById :=
           [(''aaaa'', \<lparr>di_actionId = ''aaaa'', di_functionName = ''foo'',
                        di_chunkFile = ''app.js'', di_firstSeen = ''2024-01-01T00:00:00.000Z'',
                        di_chunkRequestId = ''7''\<rparr>)]\<rparr>)) \<noteq> []"
  by (simp add: clearAll_def send_def sendStatus_def setActionNote_def setProp_def initial_def)

subsection \<open>Deduplication by request identifier\<close>

text \<open>When \<open>ensureActionNotes\<close> throws, and what it returns when it does not.\<close>

lemma ensureActionNotes_cases:
  "ensureActionNotes env st a =
     (if getProp (actionNamesById st) a \<noteq> Missing \<and> getProp (actionNotesById st) a = Inherited
      then Inl (ErrorObject (notAFunction env))
      else Inr (notesEnsured env st a, noteEnsured env st a))"
  by (simp add: notesEnsured_def noteEnsured_def ensureActionNotes_def Let_def
      split: lookup.splits)

lemma ensureActionNotes_ordinary:
  "ordinaryKey a \<Longrightarrow>
     ensureActionNotes env st a = Inr (notesEnsured env st a, noteEnsured env st a)"
  by (simp add: ensureActionNotes_cases getProp_Inherited_iff)

lemma notesEnsured_frame:
  "actions (notesEnsured env st a) = actions st"
  "actionUsagesById (notesEnsured env st a) = actionUsagesById st"
  "seenRequestIds (notesEnsured env st a) = seenRequestIds st"
  "sent (notesEnsured env st a) = sent st"
  "ticks (notesEnsured env st a) = ticks st"
  "discoveredActionsById (notesEnsured env st a) = discoveredActionsById st"
  "actionNamesById (notesEnsured env st a) = actionNamesById st"
  by (simp_all add: notesEnsured_def ensureActionNotes_def Let_def split: lookup.splits)

lemma getProp_update:
  "getProp (AList.update k v table) k' = (if k' = k then Own v else getProp table k')"
  by (simp add: getProp_def AList.update_conv')

lemma analyzeSecurity_seen [simp]:
  "analyzeSecurity env (st\<lparr>seenRequestIds := X\<rparr>) request response a ps
     = analyzeSecurity env st request response a ps"
  by (simp add: analyzeSecurity_def securityNoteList_def reuseNotes_def reusedCount_def)

lemma notesEnsured_seen:
  "notesEnsured env (st\<lparr>seenRequestIds := X\<rparr>) a = (notesEnsured env st a)\<lparr>seenRequestIds := X\<rparr>"
  by (simp add: notesEnsured_def ensureActionNotes_def Let_def split: lookup.splits)

lemma noteEnsured_seen:
  "noteEnsured env (st\<lparr>seenRequestIds := X\<rparr>) a = noteEnsured env st a"
  by (simp add: noteEnsured_def ensureActionNotes_def Let_def split: lookup.splits)

lemma addActionEntry_seen:
  "req_id request \<in> seenRequestIds st \<Longrightarrow>
     addActionEntry env st request response a = (None, st)"
  by (simp add: addActionEntry_def Let_def)

text \<open>
  The whole effect of \<open>addActionEntry\<close> on a request it has not seen: when it returns,
  when \<open>ensureActionNotes\<close> throws, and when the spread of the usage list throws.
\<close>

lemma addActionEntry_new:
  assumes "req_id request \<notin> seenRequestIds st"
      and "getProp (actionNamesById st) a = Missing \<or> getProp (actionNotesById st) a \<noteq> Inherited"
      and "getProp (actionUsagesById st) a \<noteq> Inherited"
  shows "addActionEntry env st request response a
     = (None,
        (notesEnsured env st a)
         \<lparr>seenRequestIds := insert (req_id request) (seenRequestIds st),
          actions := actions st @ [newEntry env st request response a],
          actionUsagesById :=
            AList.update a (priorUsages st a @ [newUsage env st request response a])
              (actionUsagesById st),
          sent := sent st @ [ActionAddedEvent (newEntry env st request response a)]\<rparr>)"
proof -
  have e: "ensureActionNotes env (st\<lparr>seenRequestIds := insert (req_id request) (seenRequestIds st)\<rparr>) a
             = Inr ((notesEnsured env st a)\<lparr>seenRequestIds := insert (req_id request) (seenRequestIds st)\<rparr>,
                    noteEnsured env st a)"
    using assms(2) by (auto simp: ensureActionNotes_cases notesEnsured_seen noteEnsured_seen)
  show ?thesis
  proof (cases "map_of (actionUsagesById st) a")
    case None
    with assms(3) have m: "getProp (actionUsagesById st) a = Missing"
      by (simp add: getProp_def split: if_splits)
    show ?thesis
      using assms(1) None m
      by (simp add: addActionEntry_def Let_def e notesEnsured_frame send_def newEntry_def
          newUsage_def priorUsages_def getProp_update)
  next
    case (Some us)
    then have o: "getProp (actionUsagesById st) a = Own us"
      by (simp add: getProp_Own_iff)
    show ?thesis
      using assms(1) Some o
      by (simp add: addActionEntry_def Let_def e notesEnsured_frame send_def newEntry_def
          newUsage_def priorUsages_def)
  qed
qed

lemma addActionEntry_ordinary:
  assumes "req_id request \<notin> seenRequestIds st" and "ordinaryKey a"
  shows "addActionEntry env st request response a
     = (None,
        (notesEnsured env st a)
         \<lparr>seenRequestIds := insert (req_id request) (seenRequestIds st),
          actions := actions st @ [newEntry env st request response a],
          actionUsagesById :=
            AList.update a (priorUsages st a @ [newUsage env st request response a])
              (actionUsagesById st),
          sent := sent st @ [ActionAddedEvent (newEntry env st request response a)]\<rparr>)"
  using assms by (intro addActionEntry_new) (simp_all add: getProp_Inherited_iff)

lemma addActionEntry_note_throws:
  assumes "req_id request \<notin> seenRequestIds st"
      and "getProp (actionNamesById st) a \<noteq> Missing"
      and "getProp (actionNotesById st) a = Inherited"
  shows "addActionEntry env st request response a
     = (Some (ErrorObject (notAFunction env)),
        st\<lparr>seenRequestIds := insert (req_id request) (seenRequestIds st)\<rparr>)"
  using assms by (simp add: addActionEntry_def Let_def ensureActionNotes_cases)

lemma addActionEntry_spread_throws:
  assumes "req_id request \<notin> seenRequestIds st"
      and "getProp (actionNamesById st) a = Missing \<or> getProp (actionNotesById st) a \<noteq> Inherited"
      and "getProp (actionUsagesById st) a = Inherited"
  shows "addActionEntry env st request response a
     = (Some (ErrorObject (notIterable env)),
        (notesEnsured env st a)
         \<lparr>seenRequestIds := insert (req_id request) (seenRequestIds st),
          actions := actions st @ [newEntry env st request response a]\<rparr>)"
proof -
  have e: "ensureActionNotes env (st\<lparr>seenRequestIds := insert (req_id request) (seenRequestIds st)\<rparr>) a
             = Inr ((notesEnsured env st a)\<lparr>seenRequestIds := insert (req_id request) (seenRequestIds st)\<rparr>,
                    noteEnsured env st a)"
    using assms(2) by (auto simp: ensureActionNotes_cases notesEnsured_seen noteEnsured_seen)
  show ?thesis
    using assms(1,3)
    by (simp add: addActionEntry_def Let_def e notesEnsured_frame newEntry_def)
qed

lemma count_update_append:
  "length (filter P (concat (map snd
       (AList.update k ((case map_of al k of None \<Rightarrow> [] | Some us \<Rightarrow> us) @ [u]) al))))
     = length (filter P (concat (map snd al))) + (if P u then 1 else 0)"
  by (induction al) auto

lemma counts_addActionEntry_ordinary:
  assumes "req_id request \<notin> seenRequestIds st" and "ordinaryKey a"
  shows "countInvocations (snd (addActionEntry env st request response a)) r
           = countInvocations st r + (if r = req_id request then 1 else 0)"
    and "countUsages (snd (addActionEntry env st request response a)) r
           = countUsages st r + (if r = req_id request then 1 else 0)"
  unfolding countInvocations_def countUsages_def allUsages_def addActionEntry_ordinary[OF assms]
    priorUsages_def
  by (simp_all add: notesEnsured_frame count_update_append newEntry_def newUsage_def)

text \<open>
  The invariant holds in the empty store, and the operations keep it as long as no
  action identifier is an inherited name.
\<close>

lemma storeInv_initial: "storeInv initial"
  by (simp add: storeInv_def countInvocations_def countUsages_def allUsages_def initial_def)

lemma storeInv_addActionEntry:
  assumes "storeInv st" and "ordinaryKey a"
  shows "storeInv (snd (addActionEntry env st request response a))"
proof (cases "req_id request \<in> seenRequestIds st")
  case True
  with assms show ?thesis by (simp add: addActionEntry_seen)
next
  case False
  have seen: "seenRequestIds (snd (addActionEntry env st request response a))
                = insert (req_id request) (seenRequestIds st)"
    by (simp add: addActionEntry_ordinary[OF False assms(2)])
  show ?thesis
    unfolding storeInv_def counts_addActionEntry_ordinary[OF False assms(2)] seen
    using assms False by (auto simp: storeInv_def)
qed

lemma storeInv_clearAll: "storeInv (clearAll st)"
  by (simp add: storeInv_def clearAll_def send_def sendStatus_def countInvocations_def
      countUsages_def allUsages_def)

lemma storeInv_setActionNote: "storeInv st \<Longrightarrow> storeInv (setActionNote st a n)"
proof -
  have comp: "(\<lambda>x. ae_requestId x = r)
                \<circ> (\<lambda>x. if ae_actionId x \<noteq> a then x else x\<lparr>ae_actionNotes := n\<rparr>)
              = (\<lambda>x. ae_requestId x = r)" for r
    by (auto simp: fun_eq_iff)
  show "storeInv st \<Longrightarrow> storeInv (setActionNote st a n)"
    by (simp add: storeInv_def setActionNote_def send_def countInvocations_def
        countUsages_def allUsages_def filter_map comp)
qed

text \<open>
  The request identifier is in the seen set after the per-pair routine, whether the
  routine returns or throws.
\<close>

lemma seen_after_addActionEntry:
  "req_id request \<in> seenRequestIds (snd (addActionEntry env st request response a))"
proof (cases "req_id request \<in> seenRequestIds st")
  case True
  then show ?thesis by (simp add: addActionEntry_seen)
next
  case False
  show ?thesis
  proof (cases "getProp (actionNamesById st) a = Missing
                  \<or> getProp (actionNotesById st) a \<noteq> Inherited")
    case True
    show ?thesis
      by (cases "getProp (actionUsagesById st) a = Inherited")
         (simp_all add: addActionEntry_new[OF False True]
            addActionEntry_spread_throws[OF False True])
  next
    case inherited: False
    then show ?thesis by (simp add: addActionEntry_note_throws[OF False])
  qed
qed

lemma processRequestResponse_seen:
  "req_id request \<in> seenRequestIds st \<Longrightarrow>
     processRequestResponse env st request response = (None, st)"
  by (simp add: processRequestResponse_def addActionEntry_seen split: option.splits)

lemma onInterceptResponse_seen:
  "req_id request \<in> seenRequestIds st \<Longrightarrow>
     fst (onInterceptResponse env st request response) = None
   \<and> fst (snd (onInterceptResponse env st request response)) = st"
  by (simp add: onInterceptResponse_def Let_def processRequestResponse_seen split: option.splits)

lemma scanItems_seen:
  "\<forall>item \<in> set its. req_id (item_request item) \<in> seenRequestIds st \<Longrightarrow>
     fst (forEach (scanItem env) its (st, n, m)) = None
   \<and> fst (snd (forEach (scanItem env) its (st, n, m))) = st"
  by (induction its arbitrary: n m) (simp_all add: scanItem_def processRequestResponse_seen)

lemma analyzeLoop_seen:
  "\<forall>i \<in> set ids. \<forall>item. get i = Inr (Some item) \<longrightarrow>
       req_id (item_request item) \<in> seenRequestIds st \<Longrightarrow>
     fst (snd (analyzeLoop get env ids (st, n, m))) = st"
  by (induction ids arbitrary: n m)
     (auto simp: addActionEntry_seen split: sum.splits option.splits)

text \<open>
  Each way into the store makes of an unseen pair what \<open>addActionEntry\<close> makes of it: the
  per-pair routine of the observer and of the scan, the observer's handler, and
  \<open>analyzeRequestsById\<close> with the identifier of the pair.
\<close>

lemma entry_points:
  assumes "getNextActionIdFromRequest request = Some actionId"
  shows "processRequestResponse env st request (Some response)
           = addActionEntry env st request response actionId"
    and "fst (onInterceptResponse env st request response)
           = fst (addActionEntry env st request response actionId)"
    and "fst (snd (onInterceptResponse env st request response))
           = snd (addActionEntry env st request response actionId)"
    and "get i = Inr (Some \<lparr>item_request = request, item_response = Some response\<rparr>) \<Longrightarrow>
         analyzeLoop get env [i] (st, n, m)
           = (fst (addActionEntry env st request response actionId),
              snd (addActionEntry env st request response actionId), n + 1, m + 1)"
    and "get i = Inr (Some \<lparr>item_request = request, item_response = Some response\<rparr>) \<Longrightarrow>
         fst (addActionEntry env st request response actionId) = None \<Longrightarrow>
         analyzeRequestsById get env st [i]
           = (Ok (1, 1), send (snd (addActionEntry env st request response actionId))
                           DataChangedEvent)"
  using assms
  by (auto simp: processRequestResponse_def onInterceptResponse_def Let_def
      analyzeRequestsById_def split: prod.splits option.splits)

text \<open>
  For an action identifier that is not an inherited name, in a store that satisfies the
  invariant: once a pair has been submitted by any of the three ways, its request
  identifier has exactly one invocation and exactly one usage record, and a pair with
  the same request identifier (whatever its content) changes nothing by any way.
\<close>

lemma ordinary_request_processed_once:
  assumes "storeInv st"
      and "getNextActionIdFromRequest request = Some actionId"
      and "ordinaryKey actionId"
      and "req_id request' = req_id request"
      and "get i = Inr (Some \<lparr>item_request = request, item_response = Some response\<rparr>)"
      and "st1 = snd (processRequestResponse env st request (Some response))
           \<or> st1 = fst (snd (onInterceptResponse env st request response))
           \<or> st1 = fst (snd (analyzeLoop get env [i] (st, n, m)))"
  shows "countInvocations st1 (req_id request) = 1"
    and "countUsages st1 (req_id request) = 1"
    and "processRequestResponse env st1 request' response' = (None, st1)"
    and "fst (snd (onInterceptResponse env st1 request' response2)) = st1"
    and "addActionEntry env st1 request' response2 actionId' = (None, st1)"
    and "get' j = Inr (Some \<lparr>item_request = request', item_response = Some response2\<rparr>) \<Longrightarrow>
         snd (analyzeRequestsById get' env st1 [j]) = send st1 DataChangedEvent"
proof -
  have "analyzeLoop get env [i] (st, n, m)
           = (fst (addActionEntry env st request response actionId),
              snd (addActionEntry env st request response actionId), n + 1, m + 1)"
    using assms(2,5)
    by (rule entry_points(4)[where get=get and i=i and request=request and response=response])
  then have st1: "st1 = snd (addActionEntry env st request response actionId)"
    using assms(6) entry_points(1,3)[OF assms(2), of env st response]
    by auto
  have seen: "req_id request \<in> seenRequestIds st1"
    unfolding st1 by (rule seen_after_addActionEntry)
  have inv: "storeInv st1"
    unfolding st1 using assms(1,3) by (rule storeInv_addActionEntry)
  show "countInvocations st1 (req_id request) = 1" "countUsages st1 (req_id request) = 1"
    using inv seen by (simp_all add: storeInv_def)
  have seen': "req_id request' \<in> seenRequestIds st1"
    using seen assms(4) by simp
  show "processRequestResponse env st1 request' response' = (None, st1)"
    using seen' by (rule processRequestResponse_seen)
  show "fst (snd (onInterceptResponse env st1 request' response2)) = st1"
    using onInterceptResponse_seen[OF seen'] by simp
  show "addActionEntry env st1 request' response2 actionId' = (None, st1)"
    using seen' by (rule addActionEntry_seen)
  show "snd (analyzeRequestsById get' env st1 [j]) = send st1 DataChangedEvent"
    if "get' j = Inr (Some \<lparr>item_request = request', item_response = Some response2\<rparr>)"
    using that addActionEntry_seen[OF seen']
    by (simp add: analyzeRequestsById_def split: option.splits)
qed


lemma sample_ordinary: "ordinaryKey sampleActionId"
  by (rule long_key_ordinary) (simp add: sampleActionId_def)

lemma inheritedName_actionId:
  "getNextActionIdFromRequest inheritedNameRequest = Some ''constructor''"
  by (simp add: getNextActionIdFromRequest_def inheritedNameRequest_def sampleRequest_def
      getHeader_def toLowerCase_def toLowerChar_def trim_def isWhiteSpace_def)

text \<open>
  C1 at a failing input. A pair whose \<open>Next-Action\<close> header is \<open>constructor\<close> is submitted
  to the empty store. The per-pair routine puts the request identifier into the seen
  set and then throws, in \<open>ensureActionNotes\<close>: the identifier has no invocation and no
  usage record, where the claim has one of each. Submitting the pair again is skipped,
  by every way into the store, so the invocation is never recorded.
\<close>

theorem C1_inherited_name_not_recorded:
  "getNextActionIdFromRequest inheritedNameRequest = Some ''constructor''
   \<and> req_id inheritedNameRequest = ''2''
   \<and> processRequestResponse sampleEnv initial inheritedNameRequest (Some sampleResponse)
       = (Some (ErrorObject ''not a function''), initial\<lparr>seenRequestIds := {''2''}\<rparr>)
   \<and> countInvocations (initial\<lparr>seenRequestIds := {''2''}\<rparr>) ''2'' = 0
   \<and> countUsages (initial\<lparr>seenRequestIds := {''2''}\<rparr>) ''2'' = 0
   \<and> processRequestResponse sampleEnv (initial\<lparr>seenRequestIds := {''2''}\<rparr>)
        inheritedNameRequest (Some sampleResponse)
       = (None, initial\<lparr>seenRequestIds := {''2''}\<rparr>)
   \<and> analyzeRequestsById
        (\<lambda>i. Inr (Some \<lparr>item_request = inheritedNameRequest,
                          item_response = Some sampleResponse\<rparr>))
        sampleEnv (initial\<lparr>seenRequestIds := {''2''}\<rparr>) [''2'']
       = (Ok (1, 1), send (initial\<lparr>seenRequestIds := {''2''}\<rparr>) DataChangedEvent)"
proof -
  have rid: "req_id inheritedNameRequest = ''2''"
    by (simp add: inheritedNameRequest_def)
  have unseen: "req_id inheritedNameRequest \<notin> seenRequestIds initial"
    by (simp add: initial_def)
  have named: "getProp (actionNamesById initial) ''constructor'' \<noteq> Missing"
    by (simp add: getProp_def initial_def prototypeKeys_def)
  have noted: "getProp (actionNotesById initial) ''constructor'' = Inherited"
    by (simp add: getProp_def initial_def prototypeKeys_def)
  have first: "processRequestResponse sampleEnv initial inheritedNameRequest (Some sampleResponse)
       = (Some (ErrorObject ''not a function''), initial\<lparr>seenRequestIds := {''2''}\<rparr>)"
    unfolding entry_points(1)[OF inheritedName_actionId]
      addActionEntry_note_throws[OF unseen named noted]
    by (simp add: rid sampleEnv_def initial_def)
  have seen: "req_id inheritedNameRequest \<in> seenRequestIds (initial\<lparr>seenRequestIds := {''2''}\<rparr>)"
    by (simp add: rid)
  have counts: "countInvocations (initial\<lparr>seenRequestIds := {''2''}\<rparr>) ''2'' = 0"
    "countUsages (initial\<lparr>seenRequestIds := {''2''}\<rparr>) ''2'' = 0"
    by (simp_all add: countInvocations_def countUsages_def allUsages_def initial_def)
  have again: "analyzeRequestsById
        (\<lambda>i. Inr (Some \<lparr>item_request = inheritedNameRequest,
                          item_response = Some sampleResponse\<rparr>))
        sampleEnv (initial\<lparr>seenRequestIds := {''2''}\<rparr>) [''2'']
       = (Ok (1, 1), send (initial\<lparr>seenRequestIds := {''2''}\<rparr>) DataChangedEvent)"
    using addActionEntry_seen[OF seen]
    by (simp add: analyzeRequestsById_def inheritedName_actionId)
  show ?thesis
    using inheritedName_actionId rid first counts processRequestResponse_seen[OF seen] again
    by simp
qed

subsection \<open>The reuse note\<close>

lemma js_includes_sublist: "js_includes s p \<longleftrightarrow> sublist p s"
  by (induction s) (auto simp: sublist_Cons_right)

lemma sublist_join: "x \<in> set xs \<Longrightarrow> sublist x (join sep xs)"
proof (induction sep xs rule: join.induct)
  case (1 sep)
  then show ?case by simp
next
  case (2 sep y)
  then show ?case by simp
next
  case (3 sep y z zs)
  show ?case
  proof (cases "x = y")
    case True
    then show ?thesis by (simp add: sublist_append_rightI)
  next
    case False
    with 3 have "sublist x (join sep (z # zs))" by simp
    then have "sublist x (y @ sep @ join sep (z # zs))" by (simp add: sublist_append)
    then show ?thesis by simp
  qed
qed

lemma directIdEntry_shape:
  "x \<in> set (directIdEntry kv) \<Longrightarrow> \<exists>t. x = CHR ''D'' # t"
  by (auto simp: directIdEntry_def split: prod.splits if_splits json.splits)

lemma directIdNotes_shape:
  "x \<in> set (directIdNotes j) \<Longrightarrow> \<exists>t. x = CHR ''D'' # t"
  by (auto simp: directIdNotes_def directIdElement_def dest: directIdEntry_shape
      split: option.splits json.splits if_splits)

lemma paramNotes_shape: "x \<in> set (paramNotes ps) \<Longrightarrow> \<exists>t. x = CHR ''C'' # t"
  by (auto simp: paramNotes_def Let_def split: if_splits)

lemma authNotes_shape: "x \<in> set (authNotes r) \<Longrightarrow> x = ''No auth headers''"
  by (auto simp: authNotes_def Let_def split: if_splits)

lemma devNotes_shape: "x \<in> set (devNotes b) \<Longrightarrow> x = ''Dev mode indicators''"
  by (auto simp: devNotes_def split: if_splits)

lemma errorNotes_shape: "x \<in> set (errorNotes env b) \<Longrightarrow> x = ''Error in response''"
  by (auto simp: errorNotes_def split: if_splits)

lemma dbNotes_shape: "x \<in> set (dbNotes b) \<Longrightarrow> x = ''DB mention''"
  by (simp add: dbNotes_def split: if_splits)

lemma originNotes_shape: "x \<in> set (originNotes r) \<Longrightarrow> x = ''Origin/Host mismatch''"
  by (auto simp: originNotes_def Let_def split: option.splits if_splits)

lemma bindNotes_shape: "x \<in> set (bindNotes ps) \<Longrightarrow> x = ''Potential .bind() usage''"
  by (auto simp: bindNotes_def split: if_splits)

lemma methodNotes_shape: "x \<in> set (methodNotes r) \<Longrightarrow> x = ''Non-POST action''"
  by (auto simp: methodNotes_def split: if_splits)

lemma reuseNotes_iff:
  "x \<in> set (reuseNotes st a)
     \<longleftrightarrow> 10 < reusedCount st a \<and> x = ''Action reused '' @ show_nat (reusedCount st a) @ ''x''"
  by (auto simp: reuseNotes_def Let_def)

text \<open>Only the reuse rule produces a note that starts with the letter A.\<close>

lemma note_starting_with_A:
  assumes "x \<in> set (securityNoteList env st request response a ps)"
      and "x = CHR ''A'' # t"
  shows "x \<in> set (reuseNotes st a)"
proof -
  from assms(1) have
    "x \<in> set (authNotes request) \<or> x \<in> set (paramNotes ps)
     \<or> x \<in> set (directIdNotes (safeJsonParse env ps))
     \<or> x \<in> set (devNotes (getTextBody (resp_body response)))
     \<or> x \<in> set (errorNotes env (getTextBody (resp_body response)))
     \<or> x \<in> set (dbNotes (getTextBody (resp_body response)))
     \<or> x \<in> set (originNotes request) \<or> x \<in> set (reuseNotes st a)
     \<or> x \<in> set (bindNotes ps) \<or> x \<in> set (methodNotes request)"
    by (simp add: securityNoteList_def Let_def)
  then show ?thesis
  proof (elim disjE)
    assume "x \<in> set (authNotes request)"
    from authNotes_shape[OF this] assms(2) show ?thesis by simp
  next
    assume "x \<in> set (paramNotes ps)"
    from paramNotes_shape[OF this] assms(2) show ?thesis by auto
  next
    assume "x \<in> set (directIdNotes (safeJsonParse env ps))"
    from directIdNotes_shape[OF this] assms(2) show ?thesis by auto
  next
    assume "x \<in> set (devNotes (getTextBody (resp_body response)))"
    from devNotes_shape[OF this] assms(2) show ?thesis by simp
  next
    assume "x \<in> set (errorNotes env (getTextBody (resp_body response)))"
    from errorNotes_shape[OF this] assms(2) show ?thesis by simp
  next
    assume "x \<in> set (dbNotes (getTextBody (resp_body response)))"
    from dbNotes_shape[OF this] assms(2) show ?thesis by simp
  next
    assume "x \<in> set (originNotes request)"
    from originNotes_shape[OF this] assms(2) show ?thesis by simp
  next
    assume "x \<in> set (bindNotes ps)"
    from bindNotes_shape[OF this] assms(2) show ?thesis by simp
  next
    assume "x \<in> set (methodNotes request)"
    from methodNotes_shape[OF this] assms(2) show ?thesis by simp
  qed
qed

lemma reuseNotes_in_list:
  "x \<in> set (reuseNotes st a) \<Longrightarrow> x \<in> set (securityNoteList env st request response a ps)"
  by (simp add: securityNoteList_def Let_def)

lemma reuse_note_member:
  "(''Action reused '' @ show_nat (reusedCount st a) @ ''x'')
      \<in> set (securityNoteList env st request response a ps)
   \<longleftrightarrow> 10 < reusedCount st a"
proof
  assume "(''Action reused '' @ show_nat (reusedCount st a) @ ''x'')
            \<in> set (securityNoteList env st request response a ps)"
  then have "(''Action reused '' @ show_nat (reusedCount st a) @ ''x'') \<in> set (reuseNotes st a)"
    by (rule note_starting_with_A) simp
  then show "10 < reusedCount st a" unfolding reuseNotes_iff by (rule conjunct1)
next
  assume "10 < reusedCount st a"
  then have "(''Action reused '' @ show_nat (reusedCount st a) @ ''x'') \<in> set (reuseNotes st a)"
    unfolding reuseNotes_iff by (intro conjI refl)
  then show "(''Action reused '' @ show_nat (reusedCount st a) @ ''x'')
            \<in> set (securityNoteList env st request response a ps)"
    by (rule reuseNotes_in_list)
qed

lemma reuse_note_only:
  assumes "x \<in> set (securityNoteList env st request response a ps)"
      and "prefix ''Action reused '' x"
  shows "x = ''Action reused '' @ show_nat (reusedCount st a) @ ''x''"
proof -
  from assms(2) obtain t where "x = CHR ''A'' # t" by (auto simp: prefix_def)
  with assms(1) have "x \<in> set (reuseNotes st a)" by (rule note_starting_with_A)
  then show ?thesis unfolding reuseNotes_iff by (rule conjunct2)
qed

text \<open>
  For an identifier that is not an inherited name the count of the reuse rule is the
  number of its usage records, which the new invocation raises by one.
\<close>

lemma reusedCount_ordinary:
  "ordinaryKey a \<Longrightarrow> reusedCount st a = length (priorUsages st a)"
  by (simp add: reusedCount_def priorUsages_def getProp_ordinary split: option.splits)

lemma priorUsages_addActionEntry:
  "req_id request \<notin> seenRequestIds st \<Longrightarrow> ordinaryKey a \<Longrightarrow>
     priorUsages (snd (addActionEntry env st request response a)) a
       = priorUsages st a @ [newUsage env st request response a]"
  by (simp add: addActionEntry_ordinary priorUsages_def AList.update_conv')

text \<open>
  Apart from the reuse note and the notes quoted from the body, no note contains a
  capital A, and neither does the separator.
\<close>

lemma fixed_note_without_A:
  assumes "x \<in> set (securityNoteList env st request response a ps)"
      and "directIdNotes (safeJsonParse env ps) = []"
      and "\<not> 10 < reusedCount st a"
  shows "CHR ''A'' \<notin> set x"
proof -
  from assms(1,2) have
    "x \<in> set (authNotes request) \<or> x \<in> set (paramNotes ps)
     \<or> x \<in> set (devNotes (getTextBody (resp_body response)))
     \<or> x \<in> set (errorNotes env (getTextBody (resp_body response)))
     \<or> x \<in> set (dbNotes (getTextBody (resp_body response)))
     \<or> x \<in> set (originNotes request) \<or> x \<in> set (reuseNotes st a)
     \<or> x \<in> set (bindNotes ps) \<or> x \<in> set (methodNotes request)"
    by (simp add: securityNoteList_def Let_def)
  then show ?thesis
  proof (elim disjE)
    assume "x \<in> set (authNotes request)"
    from authNotes_shape[OF this] show ?thesis by simp
  next
    assume "x \<in> set (paramNotes ps)"
    then show ?thesis
      by (auto simp: paramNotes_def Let_def dangerousParams_def split: if_splits)
  next
    assume "x \<in> set (devNotes (getTextBody (resp_body response)))"
    from devNotes_shape[OF this] show ?thesis by simp
  next
    assume "x \<in> set (errorNotes env (getTextBody (resp_body response)))"
    from errorNotes_shape[OF this] show ?thesis by simp
  next
    assume "x \<in> set (dbNotes (getTextBody (resp_body response)))"
    from dbNotes_shape[OF this] show ?thesis by simp
  next
    assume "x \<in> set (originNotes request)"
    from originNotes_shape[OF this] show ?thesis by simp
  next
    assume "x \<in> set (reuseNotes st a)"
    with assms(3) show ?thesis by (simp add: reuseNotes_iff)
  next
    assume "x \<in> set (bindNotes ps)"
    from bindNotes_shape[OF this] show ?thesis by simp
  next
    assume "x \<in> set (methodNotes request)"
    from methodNotes_shape[OF this] show ?thesis by simp
  qed
qed

lemma join_without_char:
  "c \<notin> set sep \<Longrightarrow> \<forall>x \<in> set xs. c \<notin> set x \<Longrightarrow> c \<notin> set (join sep xs)"
  by (induction sep xs rule: join.induct) auto

lemma sublist_set: "sublist p s \<Longrightarrow> set p \<subseteq> set s"
  by (auto simp: sublist_def)

lemma no_reuse_text:
  assumes "directIdNotes (safeJsonParse env ps) = []"
      and "\<not> 10 < reusedCount st a"
  shows "\<not> js_includes (join ''; '' (securityNoteList env st request response a ps))
             (''Action reused '' @ t)"
proof
  assume "js_includes (join ''; '' (securityNoteList env st request response a ps))
             (''Action reused '' @ t)"
  then have "set (''Action reused '' @ t)
               \<subseteq> set (join ''; '' (securityNoteList env st request response a ps))"
    unfolding js_includes_sublist by (rule sublist_set)
  then have "CHR ''A'' \<in> set (join ''; '' (securityNoteList env st request response a ps))"
    by auto
  moreover have "CHR ''A'' \<notin> set (join ''; '' (securityNoteList env st request response a ps))"
    by (rule join_without_char) (auto dest: fixed_note_without_A[OF _ assms])
  ultimately show False by blast
qed

text \<open>
  C4, as the code has it: when a request that has not been seen is recorded for an
  action identifier with \<open>n\<close> usage records, the stored security notes of the new
  invocation are the notes of the rules joined with \<open>"; "\<close>, and the note
  \<open>Action reused <n>x\<close> is one of them if and only if \<open>n > 10\<close>. No other note of that
  form is produced, the stored text contains the note when \<open>n > 10\<close>, and when the body
  yields no \<open>Direct ID\<close> note (the one rule that quotes text of the body) the stored text
  contains it only then. The usage record of the invocation itself is appended only
  afterwards, which brings the count to \<open>n + 1\<close>. The identifier is any that is not the
  name of an inherited property.
\<close>

theorem C4_reuse_note_counts_prior_usages:
  assumes "req_id request \<notin> seenRequestIds st"
      and "ordinaryKey actionId"
  shows "let n = length (priorUsages st actionId);
             result = addActionEntry env st request response actionId;
             stored = ae_securityNotes (last (actions (snd result)));
             notes = securityNoteList env st request response actionId
                       (getTextBody (req_body request));
             reuseNote = ''Action reused '' @ show_nat n @ ''x''
         in fst result = None
          \<and> length (actions (snd result)) = length (actions st) + 1
          \<and> ae_requestId (last (actions (snd result))) = req_id request
          \<and> stored = join ''; '' notes
          \<and> (reuseNote \<in> set notes \<longleftrightarrow> 10 < n)
          \<and> (\<forall>x \<in> set notes. prefix ''Action reused '' x \<longrightarrow> x = reuseNote)
          \<and> (10 < n \<longrightarrow> js_includes stored reuseNote)
          \<and> (directIdNotes (safeJsonParse env (getTextBody (req_body request))) = []
                \<longrightarrow> (js_includes stored reuseNote \<longleftrightarrow> 10 < n))
          \<and> length (priorUsages (snd result) actionId) = n + 1"
proof -
  let ?result = "addActionEntry env st request response actionId"
  let ?notes = "securityNoteList env st request response actionId (getTextBody (req_body request))"
  let ?note = "''Action reused '' @ show_nat (reusedCount st actionId) @ ''x''"
  have n: "length (priorUsages st actionId) = reusedCount st actionId"
    using assms(2) by (simp add: reusedCount_ordinary)
  have ok: "fst ?result = None"
    by (simp add: addActionEntry_ordinary[OF assms])
  have acts: "actions (snd ?result) = actions st @ [newEntry env st request response actionId]"
    by (simp add: addActionEntry_ordinary[OF assms])
  have len: "length (actions (snd ?result)) = length (actions st) + 1"
    by (simp add: acts)
  have rid: "ae_requestId (last (actions (snd ?result))) = req_id request"
    by (simp add: acts newEntry_def)
  have stored: "ae_securityNotes (last (actions (snd ?result))) = join ''; '' ?notes"
    by (simp add: acts newEntry_def analyzeSecurity_def)
  have mem: "?note \<in> set ?notes \<longleftrightarrow> 10 < reusedCount st actionId"
    by (rule reuse_note_member)
  have only: "\<forall>x \<in> set ?notes. prefix ''Action reused '' x \<longrightarrow> x = ?note"
    using reuse_note_only by blast
  have incl: "10 < reusedCount st actionId \<longrightarrow> js_includes (join ''; '' ?notes) ?note"
  proof
    assume "10 < reusedCount st actionId"
    with mem have "?note \<in> set ?notes" by blast
    then have "sublist ?note (join ''; '' ?notes)" by (rule sublist_join)
    then show "js_includes (join ''; '' ?notes) ?note" unfolding js_includes_sublist .
  qed
  have conv: "directIdNotes (safeJsonParse env (getTextBody (req_body request))) = []
                \<longrightarrow> (js_includes (join ''; '' ?notes) ?note \<longleftrightarrow> 10 < reusedCount st actionId)"
    using incl
      no_reuse_text[of env "getTextBody (req_body request)" st actionId request response
        "show_nat (reusedCount st actionId) @ ''x''"]
    by blast
  have cnt: "length (priorUsages (snd ?result) actionId) = reusedCount st actionId + 1"
    using priorUsages_addActionEntry[OF assms, of env response] n by simp
  show ?thesis
    unfolding Let_def stored n
    by (intro conjI ok len rid refl mem only incl conv cnt)
qed

lemma busy_notes:
  "analyzeSecurity sampleEnv busyState sampleRequest sampleResponse sampleActionId ''[]''
     = ''No auth headers; Action reused 11x''"
  by (simp add: analyzeSecurity_def securityNoteList_def Let_def sampleEnv_def busyState_def
      initial_def sampleRequest_def sampleResponse_def sampleActionId_def reusedCount_def
      getProp_def
      authNotes_def paramNotes_def devNotes_def errorNotes_def dbNotes_def originNotes_def
      reuseNotes_def bindNotes_def methodNotes_def
      toLowerCase_def toLowerChar_def toUpperCase_def toUpperChar_def dangerousParams_def
      safeJsonParse_def directIdNotes_def getTextBody_def firstHeaderTrimmed_def getHeader_def
      trim_def isWhiteSpace_def show_nat.simps)

theorem C4_reuse_note_counts_prior_usages_witness:
  "req_id sampleRequest \<notin> seenRequestIds busyState
   \<and> ordinaryKey sampleActionId
   \<and> length (priorUsages busyState sampleActionId) = 11
   \<and> (let result = addActionEntry sampleEnv busyState sampleRequest sampleResponse sampleActionId in
        fst result = None
      \<and> ae_securityNotes (last (actions (snd result))) = ''No auth headers; Action reused 11x''
      \<and> js_includes (ae_securityNotes (last (actions (snd result)))) ''Action reused 11x''
      \<and> length (priorUsages (snd result) sampleActionId) = 12)"
proof -
  have h: "req_id sampleRequest \<notin> seenRequestIds busyState"
    by (simp add: busyState_def initial_def)
  have n: "length (priorUsages busyState sampleActionId) = 11"
    by (simp add: priorUsages_def busyState_def)
  have b: "getTextBody (req_body sampleRequest) = ''[]''"
    by (simp add: sampleRequest_def getTextBody_def)
  have s: "show_nat 11 = ''11''"
    by (simp add: show_nat.simps)
  from C4_reuse_note_counts_prior_usages[OF h sample_ordinary, of sampleEnv sampleResponse]
  show ?thesis
    unfolding Let_def n b s busy_notes[unfolded analyzeSecurity_def]
    using h n sample_ordinary by simp
qed

lemma quoting_notes:
  "analyzeSecurity sampleEnv initial quotingRequest sampleResponse sampleActionId
     (getTextBody (req_body quotingRequest))
     = ''No auth headers; Contains: id; Direct ID: Action reused 0x id=1''"
  by (simp add: analyzeSecurity_def securityNoteList_def Let_def sampleEnv_def quotingRequest_def
      initial_def sampleRequest_def sampleResponse_def sampleActionId_def reusedCount_def
      getProp_def prototypeKeys_def
      authNotes_def paramNotes_def devNotes_def errorNotes_def dbNotes_def originNotes_def
      reuseNotes_def bindNotes_def methodNotes_def
      toLowerCase_def toLowerChar_def toUpperCase_def toUpperChar_def dangerousParams_def
      safeJsonParse_def directIdNotes_def directIdElement_def directIdEntry_def
      getTextBody_def firstHeaderTrimmed_def getHeader_def
      trim_def isWhiteSpace_def)

text \<open>
  The claim as stated fails on the stored text. The first invocation of an identifier,
  with no usage record before it, has a body whose second element is an object with the
  key \<open>Action reused 0x id\<close> and the value 1: the rule for direct identifiers quotes the
  key, and the stored notes contain \<open>Action reused 0x\<close> although \<open>n = 0\<close>.
\<close>

theorem C4_quoted_reuse_text_counterexample:
  "req_id quotingRequest \<notin> seenRequestIds initial
   \<and> length (priorUsages initial sampleActionId) = 0
   \<and> ae_securityNotes
        (last (actions (snd (addActionEntry sampleEnv initial quotingRequest sampleResponse
                               sampleActionId))))
       = ''No auth headers; Contains: id; Direct ID: Action reused 0x id=1''
   \<and> js_includes ''No auth headers; Contains: id; Direct ID: Action reused 0x id=1''
        (''Action reused '' @ show_nat 0 @ ''x'')"
proof -
  have h: "req_id quotingRequest \<notin> seenRequestIds initial"
    by (simp add: initial_def)
  have n: "length (priorUsages initial sampleActionId) = 0"
    by (simp add: priorUsages_def initial_def)
  have stored: "ae_securityNotes
        (last (actions (snd (addActionEntry sampleEnv initial quotingRequest sampleResponse
                               sampleActionId))))
       = ''No auth headers; Contains: id; Direct ID: Action reused 0x id=1''"
    by (simp add: addActionEntry_ordinary[OF h sample_ordinary] newEntry_def quoting_notes)
  have inc: "js_includes ''No auth headers; Contains: id; Direct ID: Action reused 0x id=1''
        (''Action reused '' @ show_nat 0 @ ''x'')"
    by (simp add: show_nat.simps)
  from h n stored inc show ?thesis by simp
qed

subsection \<open>The finding of the live observer\<close>




text \<open>
  In \<open>No auth headers\<close> the letter a is followed by the letter u. No other note of the
  fixed rules, no reuse note and no separator has that pair of letters.
\<close>

lemma hasPair_Cons:
  "hasPair a b (c # t) \<longleftrightarrow> (t \<noteq> [] \<and> c = a \<and> hd t = b) \<or> hasPair a b t"
  by (cases t) auto




















subsection \<open>Runs of the traversal\<close>

text \<open>A run of the source determines what \<open>paginateAllRequests\<close> returns.\<close>

lemma paginate_traversal:
  "traversal fetch cursor pages outcome \<Longrightarrow>
     paginateAllRequests fetch onPage cursor s = Some (pagesRun onPage pages outcome s)"
proof (induction arbitrary: s rule: traversal.induct)
  case (failed cursor e)
  then show ?case by (subst paginateAllRequests.simps) (simp add: pagesRun_def)
next
  case (lastPage cursor page)
  then show ?case
    by (subst paginateAllRequests.simps)
       (simp add: pagesRun_def split: prod.splits option.splits)
next
  case (nextPage cursor page pages outcome)
  then show ?case
    by (subst paginateAllRequests.simps)
       (simp add: pagesRun_def split: prod.splits option.splits)
qed

lemma pagesRun_total:
  "(\<And>page s. fst (onPage page s) = None) \<Longrightarrow>
     pagesRun onPage pages outcome s = (outcome, foldl (\<lambda>s' page. snd (onPage page s')) s pages)"
  by (simp add: pagesRun_def forEach_total)

lemma forEach_invariant:
  "P s \<Longrightarrow> (\<And>s x. P s \<Longrightarrow> P (snd (body s x))) \<Longrightarrow> P (snd (forEach body xs s))"
proof (induction xs arbitrary: s)
  case Nil
  then show ?case by simp
next
  case (Cons x xs)
  have step: "P (snd (body s x))" using Cons.prems by blast
  show ?case
  proof (cases "body s x")
    case (Pair t s')
    with step have s': "P s'" by simp
    show ?thesis
    proof (cases t)
      case None
      with Pair Cons.IH[OF s' Cons.prems(2)] show ?thesis by simp
    next
      case (Some e)
      with Pair s' show ?thesis by simp
    qed
  qed
qed

subsection \<open>The name-extraction pass\<close>

lemma map_add_single_absent:
  "m a = None \<Longrightarrow> [a \<mapsto> f] ++ m = m(a \<mapsto> f)"
  by (auto simp: fun_eq_iff map_add_def split: option.splits)

lemma map_add_single_present:
  "m a = Some g \<Longrightarrow> [a \<mapsto> f] ++ m = m"
  by (auto simp: fun_eq_iff map_add_def split: option.splits)

text \<open>An identifier that the patterns can capture is not the name of an inherited property.\<close>

lemma accepted_ordinary:
  "fitsGroups m \<Longrightarrow> acceptedMatch m = Some (a, f) \<Longrightarrow> ordinaryKey a"
  by (auto simp: fitsGroups_def acceptedMatch_def intro: long_key_ordinary
      split: prod.splits option.splits if_splits)

lemma allMatches_fit: "m \<in> set (allMatches patterns body) \<Longrightarrow> fitsGroups m"
  by (simp add: allMatches_def)

lemma nameMatch_names_pair:
  assumes "fitsGroups m"
  shows "map_of (actionNamesById (fst (nameMatch (st, n) m)))
     = map_of (List.map_filter acceptedMatch [m]) ++ map_of (actionNamesById st)"
proof (cases "acceptedMatch m")
  case None
  then show ?thesis
    by (simp add: nameMatch_def List.map_filter_simps)
next
  case (Some p)
  obtain a f where p: "p = (a, f)" by (cases p)
  have ord: "ordinaryKey a" using assms Some p by (auto intro: accepted_ordinary)
  show ?thesis
  proof (cases "map_of (actionNamesById st) a")
    case None
    with Some p ord show ?thesis
      by (simp add: nameMatch_def List.map_filter_simps AList.update_conv' getProp_ordinary
          map_add_single_absent[of "map_of (actionNamesById st)" a f])
  next
    case (Some g)
    with \<open>acceptedMatch m = Some p\<close> p ord show ?thesis
      by (simp add: nameMatch_def List.map_filter_simps getProp_ordinary
          map_add_single_present[of "map_of (actionNamesById st)" a g f])
  qed
qed

lemma nameMatch_names:
  "fitsGroups m \<Longrightarrow>
   map_of (actionNamesById (fst (nameMatch s m)))
     = map_of (List.map_filter acceptedMatch [m]) ++ map_of (actionNamesById (fst s))"
  by (cases s) (simp only: nameMatch_names_pair fst_conv)

lemma nameMatch_frame:
  "sameButNames (fst (nameMatch s m)) (fst s) \<and> sent (fst (nameMatch s m)) = sent (fst s)"
  by (simp add: nameMatch_def sameButNames_def split: prod.splits option.splits lookup.splits)

lemma map_filter_append: "List.map_filter f (xs @ ys) = List.map_filter f xs @ List.map_filter f ys"
  by (simp add: List.map_filter_def)

lemma nameMatches_names:
  "\<forall>m \<in> set ms. fitsGroups m \<Longrightarrow>
   map_of (actionNamesById (fst (foldl nameMatch s ms)))
     = map_of (List.map_filter acceptedMatch ms) ++ map_of (actionNamesById (fst s))"
proof (induction ms arbitrary: s)
  case Nil
  then show ?case by (simp add: List.map_filter_simps)
next
  case (Cons m ms)
  have fit: "fitsGroups m" and rest: "\<forall>m \<in> set ms. fitsGroups m"
    using Cons.prems by simp_all
  have split: "List.map_filter acceptedMatch (m # ms)
          = List.map_filter acceptedMatch [m] @ List.map_filter acceptedMatch ms"
    using map_filter_append[of acceptedMatch "[m]" ms] by simp
  have "map_of (actionNamesById (fst (foldl nameMatch s (m # ms))))
          = map_of (List.map_filter acceptedMatch ms)
              ++ (map_of (List.map_filter acceptedMatch [m]) ++ map_of (actionNamesById (fst s)))"
    by (simp only: foldl_Cons Cons.IH[OF rest] nameMatch_names[OF fit])
  also have "\<dots> = map_of (List.map_filter acceptedMatch (m # ms)) ++ map_of (actionNamesById (fst s))"
    by (simp only: split map_of_append map_add_assoc)
  finally show ?case .
qed

lemma nameMatches_frame:
  "sameButNames (fst (foldl nameMatch s ms)) (fst s)
   \<and> sent (fst (foldl nameMatch s ms)) = sent (fst s)"
proof (induction ms arbitrary: s)
  case Nil
  then show ?case by (simp add: sameButNames_def)
next
  case (Cons m ms)
  from Cons.IH[of "nameMatch s m"] nameMatch_frame[of s m]
  show ?case by (simp add: sameButNames_def)
qed

lemma nameItem_names:
  "map_of (actionNamesById (fst (nameItem env s item)))
     = map_of (itemMatches (namePatterns env) item) ++ map_of (actionNamesById (fst s))"
proof (cases s)
  case (fields st c n)
  show ?thesis
  proof (cases "chunkBody item")
    case None
    with fields show ?thesis by (simp add: nameItem_def itemMatches_def)
  next
    case (Some body)
    have fit: "\<forall>m \<in> set (allMatches (namePatterns env) body). fitsGroups m"
      using allMatches_fit by blast
    from nameMatches_names[OF fit, of "(st, n)"] fields Some
    show ?thesis
      by (simp add: nameItem_def itemMatches_def split_beta)
  qed
qed

lemma nameItem_frame:
  "sameButNames (fst (nameItem env s item)) (fst s)
   \<and> sent (fst (nameItem env s item)) = sent (fst s)"
proof (cases s)
  case (fields st c n)
  show ?thesis
  proof (cases "chunkBody item")
    case None
    with fields show ?thesis by (simp add: nameItem_def sameButNames_def)
  next
    case (Some body)
    from nameMatches_frame[of "(st, n)" "allMatches (namePatterns env) body"] fields Some
    show ?thesis
      by (simp add: nameItem_def split_beta)
  qed
qed

lemma nameItems_names:
  "map_of (actionNamesById (fst (foldl (nameItem env) s its)))
     = map_of (concat (map (itemMatches (namePatterns env)) its))
         ++ map_of (actionNamesById (fst s))"
proof (induction its arbitrary: s)
  case Nil
  then show ?case by simp
next
  case (Cons item its)
  have "map_of (actionNamesById (fst (foldl (nameItem env) s (item # its))))
          = map_of (concat (map (itemMatches (namePatterns env)) its))
              ++ (map_of (itemMatches (namePatterns env) item) ++ map_of (actionNamesById (fst s)))"
    by (simp only: foldl_Cons Cons.IH nameItem_names)
  also have "\<dots> = map_of (concat (map (itemMatches (namePatterns env)) (item # its)))
                     ++ map_of (actionNamesById (fst s))"
    by (simp add: map_of_append map_add_assoc)
  finally show ?case .
qed

lemma nameItems_frame:
  "sameButNames (fst (foldl (nameItem env) s its)) (fst s)
   \<and> sent (fst (foldl (nameItem env) s its)) = sent (fst s)"
proof (induction its arbitrary: s)
  case Nil
  then show ?case by (simp add: sameButNames_def)
next
  case (Cons item its)
  from Cons.IH[of "nameItem env s item"] nameItem_frame[of env s item]
  show ?case by (simp add: sameButNames_def)
qed

lemma namePage_names:
  "map_of (actionNamesById (fst (namePage env page s)))
     = map_of (concat (map (itemMatches (namePatterns env)) (page_items page)))
         ++ map_of (actionNamesById (fst s))"
  using nameItems_names[of env s "page_items page"]
  by (simp add: namePage_def sendStatus_def send_def split_beta)

lemma namePage_frame: "sameButNames (fst (namePage env page s)) (fst s)"
  using nameItems_frame[of env s "page_items page"]
  by (simp add: namePage_def sendStatus_def send_def sameButNames_def split_beta)

lemma namePages_names:
  "map_of (actionNamesById (fst (foldl (\<lambda>s' page. namePage env page s') s pages)))
     = map_of (passMatches (namePatterns env) pages) ++ map_of (actionNamesById (fst s))"
proof (induction pages arbitrary: s)
  case Nil
  then show ?case by (simp add: passMatches_def)
next
  case (Cons page pages)
  have "map_of (actionNamesById (fst (foldl (\<lambda>s' page. namePage env page s') s (page # pages))))
          = map_of (passMatches (namePatterns env) pages)
              ++ (map_of (concat (map (itemMatches (namePatterns env)) (page_items page)))
                    ++ map_of (actionNamesById (fst s)))"
    by (simp only: foldl_Cons Cons.IH namePage_names)
  also have "\<dots> = map_of (passMatches (namePatterns env) (page # pages))
                     ++ map_of (actionNamesById (fst s))"
    by (simp add: passMatches_def map_of_append map_add_assoc)
  finally show ?case .
qed

lemma namePages_frame:
  "sameButNames (fst (foldl (\<lambda>s' page. namePage env page s') s pages)) (fst s)"
proof (induction pages arbitrary: s)
  case Nil
  then show ?case by (simp add: sameButNames_def)
next
  case (Cons page pages)
  from Cons.IH[of "namePage env page s"] namePage_frame[of env page s]
  show ?case by (simp add: sameButNames_def)
qed

text \<open>The loop over the named identifiers changes nothing but notes, however it ends.\<close>

lemma ensureNotesOf_snd: "snd (ensureNotesOf env st a) = notesEnsured env st a"
  by (simp add: ensureNotesOf_def notesEnsured_def split: sum.splits prod.splits)

lemma ensureNotesOf_fst:
  "fst (ensureNotesOf env st a) = None \<longleftrightarrow>
     getProp (actionNamesById st) a = Missing \<or> getProp (actionNotesById st) a \<noteq> Inherited"
  by (simp add: ensureNotesOf_def ensureActionNotes_cases)

lemma ensureLoop_frame:
  "actionNamesById (snd (forEach (ensureNotesOf env) ks st)) = actionNamesById st
   \<and> discoveredActionsById (snd (forEach (ensureNotesOf env) ks st)) = discoveredActionsById st
   \<and> actions (snd (forEach (ensureNotesOf env) ks st)) = actions st"
  by (rule forEach_invariant[where P="\<lambda>s. actionNamesById s = actionNamesById st
           \<and> discoveredActionsById s = discoveredActionsById st \<and> actions s = actions st"])
     (simp_all add: ensureNotesOf_snd notesEnsured_frame)

lemma ensureAllNotes_frame:
  "actionNamesById (snd (ensureAllNotes env st)) = actionNamesById st"
  "discoveredActionsById (snd (ensureAllNotes env st)) = discoveredActionsById st"
  "actions (snd (ensureAllNotes env st)) = actions st"
  by (simp_all add: ensureAllNotes_def ensureLoop_frame)

text \<open>What the name-extraction pass returns for a given run of the traffic source.\<close>

lemma extractActionNames_run:
  assumes "traversal fetch None pages outcome"
  shows "extractActionNames fetch env st =
     (case foldl (\<lambda>s' page. namePage env page s') (sendStatus st ''Scanning chunk files...'', 0, 0)
             pages of
        (st', scannedChunks, namesExtracted) \<Rightarrow>
          (case outcome of
             None \<Rightarrow>
               (case ensureAllNotes env st' of
                  (Some e, st'') \<Rightarrow>
                    Some (Error (errorMessage e),
                          sendStatus st'' ''Action name extraction failed'')
                | (None, st'') \<Rightarrow>
                    Some (Ok (scannedChunks, namesExtracted),
                          sendStatus (send (refreshEntryNotes st'') DataChangedEvent)
                            (''Extracted '' @ show_nat namesExtracted @ '' action names (''
                               @ show_nat scannedChunks @ '' chunks scanned)'')))
           | Some e \<Rightarrow>
               Some (Error (errorMessage e), sendStatus st' ''Action name extraction failed'')))"
proof -
  have run: "pagesRun (\<lambda>page s. (None, namePage env page s)) pages outcome s
               = (outcome, foldl (\<lambda>s' page. namePage env page s') s pages)" for s
    by (simp add: pagesRun_total)
  show ?thesis
    by (simp add: extractActionNames_def paginate_traversal[OF assms] run
        split: prod.splits option.splits)
qed

text \<open>
  C6: for every run of the traffic source that ends (a complete traversal, or one cut
  short by a thrown error), the name-extraction pass returns, leaves the declared-action mapping
  exactly as it was, and only adds to the name table: the table after the pass is the
  table before it, extended by the first accepted pair of the traversal for each
  identifier that had no name. A name stored before the pass is the name stored after
  it, whatever the pass captured for that identifier.
\<close>

theorem C6_extraction_only_adds_names:
  assumes "traversal fetch None pages outcome"
  shows "\<exists>r st'. extractActionNames fetch env st = Some (r, st')
           \<and> discoveredActionsById st' = discoveredActionsById st
           \<and> map_of (actionNamesById st')
               = map_of (passMatches (namePatterns env) pages) ++ map_of (actionNamesById st)
           \<and> (\<forall>a n. map_of (actionNamesById st) a = Some n
                 \<longrightarrow> map_of (actionNamesById st') a = Some n)"
proof -
  let ?start = "(sendStatus st ''Scanning chunk files...'', 0::nat, 0::nat)"
  let ?final = "foldl (\<lambda>s' page. namePage env page s') ?start pages"
  obtain st1 c n where s: "?final = (st1, c, n)" by (cases ?final)
  have names1: "map_of (actionNamesById st1)
                  = map_of (passMatches (namePatterns env) pages) ++ map_of (actionNamesById st)"
    using namePages_names[where env=env and s="?start" and pages=pages] s
    by (simp add: sendStatus_def send_def)
  have disc1: "discoveredActionsById st1 = discoveredActionsById st"
    using namePages_frame[where env=env and s="?start" and pages=pages] s
    by (simp add: sameButNames_def sendStatus_def send_def)
  show ?thesis
  proof (cases outcome)
    case None
    obtain t st2 where e: "ensureAllNotes env st1 = (t, st2)" by (cases "ensureAllNotes env st1")
    have names2: "actionNamesById st2 = actionNamesById st1"
      and disc2: "discoveredActionsById st2 = discoveredActionsById st1"
      using ensureAllNotes_frame(1,2)[of env st1] e by simp_all
    show ?thesis
    proof (cases t)
      case ok: None
      let ?st' = "sendStatus (send (refreshEntryNotes st2) DataChangedEvent)
                    (''Extracted '' @ show_nat n @ '' action names (''
                       @ show_nat c @ '' chunks scanned)'')"
      have r: "extractActionNames fetch env st = Some (Ok (c, n), ?st')"
        using s None e ok by (simp add: extractActionNames_run[OF assms])
      have names: "actionNamesById ?st' = actionNamesById st1"
        by (simp add: sendStatus_def send_def refreshEntryNotes_def names2)
      have disc: "discoveredActionsById ?st' = discoveredActionsById st1"
        by (simp add: sendStatus_def send_def refreshEntryNotes_def disc2)
      from r names disc names1 disc1 show ?thesis
        by (auto simp: map_add_def)
    next
      case (Some x)
      let ?st' = "sendStatus st2 ''Action name extraction failed''"
      have r: "extractActionNames fetch env st = Some (Error (errorMessage x), ?st')"
        using s None e Some by (simp add: extractActionNames_run[OF assms])
      have "actionNamesById ?st' = actionNamesById st1"
        and "discoveredActionsById ?st' = discoveredActionsById st1"
        by (simp_all add: sendStatus_def send_def names2 disc2)
      with r names1 disc1 show ?thesis
        by (auto simp: map_add_def)
    qed
  next
    case (Some e)
    let ?st' = "sendStatus st1 ''Action name extraction failed''"
    have r: "extractActionNames fetch env st = Some (Error (errorMessage e), ?st')"
      using s Some by (simp add: extractActionNames_run[OF assms])
    have "actionNamesById ?st' = actionNamesById st1"
      and "discoveredActionsById ?st' = discoveredActionsById st1"
      by (simp_all add: sendStatus_def send_def)
    with r names1 disc1 show ?thesis
      by (auto simp: map_add_def)
  qed
qed

lemma onePage_traversal:
  "traversal onePageSource None [samplePage\<lparr>page_hasNextPage := False\<rparr>] None"
  by (rule traversal.lastPage) (simp_all add: onePageSource_def)

theorem C6_extraction_only_adds_names_witness:
  "traversal onePageSource None [samplePage\<lparr>page_hasNextPage := False\<rparr>] None
   \<and> (\<exists>r st'. extractActionNames onePageSource sampleEnv namedState = Some (r, st')
          \<and> discoveredActionsById st' = discoveredActionsById namedState
          \<and> map_of (actionNamesById st') firstChunkId = Some ''oldName'')"
proof -
  have old: "map_of (actionNamesById namedState) firstChunkId = Some ''oldName''"
    by (simp add: namedState_def initial_def)
  from C6_extraction_only_adds_names[OF onePage_traversal, of sampleEnv namedState]
  obtain r st' where "extractActionNames onePageSource sampleEnv namedState = Some (r, st')"
    and "discoveredActionsById st' = discoveredActionsById namedState"
    and "\<forall>a n. map_of (actionNamesById namedState) a = Some n
           \<longrightarrow> map_of (actionNamesById st') a = Some n"
    by blast
  with old onePage_traversal show ?thesis by blast
qed

subsection \<open>The function-name prefix of a note\<close>

lemma kept_includes: "js_includes (keptNote fn old) (functionPrefix fn)"
  by (cases old) (simp_all add: keptNote_def js_includes_sublist)

lemma kept_again: "keptNote fn (Some (keptNote fn old)) = keptNote fn old"
  using kept_includes[of fn old] by (simp add: keptNote_def)

text \<open>
  What \<open>ensureActionNotes\<close> does for an identifier that has a name of its own in the
  name table and no inherited note.
\<close>

lemma ensured_named:
  assumes "map_of (actionNamesById st) a = Some fn"
      and "getProp (actionNotesById st) a \<noteq> Inherited"
  shows "noteEnsured env st a = keptNote fn (map_of (actionNotesById st) a)"
    and "map_of (actionNotesById (notesEnsured env st a))
           = (map_of (actionNotesById st))(a \<mapsto> keptNote fn (map_of (actionNotesById st) a))"
    and "ensureActionNotes env st a = Inr (notesEnsured env st a, noteEnsured env st a)"
proof -
  have n: "getProp (actionNamesById st) a = Own fn"
    using assms(1) by (simp add: getProp_Own_iff)
  show "ensureActionNotes env st a = Inr (notesEnsured env st a, noteEnsured env st a)"
    using assms(2) by (simp add: ensureActionNotes_cases)
  show "noteEnsured env st a = keptNote fn (map_of (actionNotesById st) a)"
  proof (cases "map_of (actionNotesById st) a")
    case None
    with assms(2) have "getProp (actionNotesById st) a = Missing"
      by (simp add: getProp_def split: if_splits)
    with None n show ?thesis
      by (simp add: noteEnsured_def ensureActionNotes_def Let_def keptNote_def)
  next
    case (Some e)
    then have "getProp (actionNotesById st) a = Own e" by (simp add: getProp_Own_iff)
    with Some n show ?thesis
      by (simp add: noteEnsured_def ensureActionNotes_def Let_def keptNote_def)
  qed
  show "map_of (actionNotesById (notesEnsured env st a))
           = (map_of (actionNotesById st))(a \<mapsto> keptNote fn (map_of (actionNotesById st) a))"
  proof (cases "map_of (actionNotesById st) a")
    case None
    with assms(2) have "getProp (actionNotesById st) a = Missing"
      by (simp add: getProp_def split: if_splits)
    with None n show ?thesis
      by (simp add: notesEnsured_def ensureActionNotes_def Let_def keptNote_def
          AList.update_conv')
  next
    case (Some e)
    then have "getProp (actionNotesById st) a = Own e" by (simp add: getProp_Own_iff)
    with Some n show ?thesis
      by (auto simp: notesEnsured_def ensureActionNotes_def Let_def keptNote_def
          AList.update_conv' fun_eq_iff)
  qed
qed

lemma ordinary_not_inherited: "ordinaryKey a \<Longrightarrow> getProp table a \<noteq> Inherited"
  by (simp add: getProp_Inherited_iff)

text \<open>
  The loop over named identifiers, none of them an inherited name: it does not throw, and
  it leaves every identifier it has visited with the note of \<open>keptNote\<close>, computed from
  the note the identifier had before the loop; the other notes are as they were.
\<close>

lemma ensureLoop_notes:
  assumes "\<forall>k \<in> set ks. ordinaryKey k \<and> map_of (actionNamesById st) k \<noteq> None"
      and "map_of (actionNotesById st)
             = (\<lambda>a. if a \<in> K then (case map_of (actionNamesById st) a of
                                      None \<Rightarrow> old a
                                    | Some fn \<Rightarrow> Some (keptNote fn (old a)))
                    else old a)"
  shows "fst (forEach (ensureNotesOf env) ks st) = None
       \<and> map_of (actionNotesById (snd (forEach (ensureNotesOf env) ks st)))
           = (\<lambda>a. if a \<in> K \<union> set ks then (case map_of (actionNamesById st) a of
                                      None \<Rightarrow> old a
                                    | Some fn \<Rightarrow> Some (keptNote fn (old a)))
                    else old a)"
  using assms
proof (induction ks arbitrary: st K)
  case Nil
  then show ?case by simp
next
  case (Cons k ks)
  let ?st1 = "notesEnsured env st k"
  from Cons.prems(1) obtain fn where ord: "ordinaryKey k"
    and fn: "map_of (actionNamesById st) k = Some fn"
    by auto
  have ni: "getProp (actionNotesById st) k \<noteq> Inherited"
    using ord by (rule ordinary_not_inherited)
  have body: "ensureNotesOf env st k = (None, ?st1)"
    by (simp add: ensureNotesOf_def ensured_named(3)[OF fn ni])
  have names1: "actionNamesById ?st1 = actionNamesById st"
    by (simp add: notesEnsured_frame)
  have keys1: "\<forall>k \<in> set ks. ordinaryKey k \<and> map_of (actionNamesById ?st1) k \<noteq> None"
    using Cons.prems(1) by (simp add: names1)
  have notes1: "map_of (actionNotesById ?st1)
             = (\<lambda>a. if a \<in> insert k K then (case map_of (actionNamesById ?st1) a of
                                      None \<Rightarrow> old a
                                    | Some fn \<Rightarrow> Some (keptNote fn (old a)))
                    else old a)"
    unfolding ensured_named(2)[OF fn ni] names1
    by (subst (1 2) Cons.prems(2)) (auto simp: fun_eq_iff fn kept_again)
  from Cons.IH[OF keys1 notes1, unfolded names1] body show ?case
    by simp
qed

lemma passMatches_ordinary:
  "(a, f) \<in> set (passMatches patterns pages) \<Longrightarrow> ordinaryKey a"
  by (auto simp: passMatches_def itemMatches_def List.map_filter_def
      dest!: allMatches_fit intro: accepted_ordinary split: option.splits)

lemma names_kept_by_pass:
  assumes "map_of (actionNamesById st) a = Some fn"
  shows "map_of (actionNamesById
           (fst (foldl (\<lambda>s' page. namePage env page s') (sendStatus st status, c, n) pages))) a
         = Some fn"
  using assms
  by (simp add: namePages_names map_add_def sendStatus_def send_def)

lemma notes_kept_by_pass:
  "actionNotesById (fst (foldl (\<lambda>s' page. namePage env page s') (sendStatus st status, c, n) pages))
     = actionNotesById st"
  using namePages_frame[where env=env and pages=pages and s="(sendStatus st status, c, n)"]
  by (simp add: sameButNames_def sendStatus_def send_def)

text \<open>
  A complete name-extraction pass over a store whose name table has no inherited name
  as a key: the pass returns the success variant, and the note of every identifier is
  determined by the note it had before the pass and the name it has after it.
\<close>

lemma pass_notes:
  assumes "traversal fetch None pages None"
      and "ordinaryNames st"
  shows "\<exists>r st'. extractActionNames fetch env st = Some (Ok r, st')
           \<and> map_of (actionNamesById st')
               = map_of (passMatches (namePatterns env) pages) ++ map_of (actionNamesById st)
           \<and> (\<forall>a. map_of (actionNotesById st') a =
                   (case map_of (actionNamesById st') a of
                      None \<Rightarrow> map_of (actionNotesById st) a
                    | Some name \<Rightarrow> Some (keptNote name (map_of (actionNotesById st) a))))"
proof -
  let ?final = "foldl (\<lambda>s' page. namePage env page s')
                  (sendStatus st ''Scanning chunk files...'', 0::nat, 0::nat) pages"
  obtain st1 c n where f: "?final = (st1, c, n)" by (cases ?final)
  have names1: "map_of (actionNamesById st1)
                  = map_of (passMatches (namePatterns env) pages) ++ map_of (actionNamesById st)"
    using namePages_names[where env=env and pages=pages
            and s="(sendStatus st ''Scanning chunk files...'', 0, 0)"] f
    by (simp add: sendStatus_def send_def)
  have notes1: "actionNotesById st1 = actionNotesById st"
    using notes_kept_by_pass[of env st "''Scanning chunk files...''" 0 0 pages] f by simp
  have keys: "\<forall>k \<in> set (map fst (actionNamesById st1)).
                 ordinaryKey k \<and> map_of (actionNamesById st1) k \<noteq> None"
  proof
    fix k assume k: "k \<in> set (map fst (actionNamesById st1))"
    then have some: "map_of (actionNamesById st1) k \<noteq> None"
      by (simp add: map_of_eq_None_iff)
    then have "\<exists>v. map_of (actionNamesById st1) k = Some v" by auto
    then obtain v where "map_of (actionNamesById st1) k = Some v" ..
    then have "(map_of (passMatches (namePatterns env) pages)
                  ++ map_of (actionNamesById st)) k = Some v"
      by (simp only: names1)
    then have "map_of (actionNamesById st) k = Some v
               \<or> map_of (passMatches (namePatterns env) pages) k = Some v"
      by (auto simp: map_add_def split: option.splits)
    then have "ordinaryKey k"
    proof
      assume "map_of (actionNamesById st) k = Some v"
      then have "k \<in> set (map fst (actionNamesById st))"
        by (metis map_of_eq_None_iff option.distinct(1) set_map)
      with assms(2) show ?thesis by (auto simp: ordinaryNames_def list_all_iff)
    next
      assume "map_of (passMatches (namePatterns env) pages) k = Some v"
      then have "(k, v) \<in> set (passMatches (namePatterns env) pages)" by (rule map_of_SomeD)
      then show ?thesis by (rule passMatches_ordinary)
    qed
    with some show "ordinaryKey k \<and> map_of (actionNamesById st1) k \<noteq> None" by blast
  qed
  have start: "map_of (actionNotesById st1)
             = (\<lambda>a. if a \<in> {} then (case map_of (actionNamesById st1) a of
                                      None \<Rightarrow> map_of (actionNotesById st) a
                                    | Some fn \<Rightarrow> Some (keptNote fn (map_of (actionNotesById st) a)))
                    else map_of (actionNotesById st) a)"
    by (simp add: notes1)
  obtain t st2 where e: "ensureAllNotes env st1 = (t, st2)" by (cases "ensureAllNotes env st1")
  from ensureLoop_notes[OF keys start, of env] e
  have t: "t = None"
    and notes2: "map_of (actionNotesById st2)
           = (\<lambda>a. if a \<in> set (map fst (actionNamesById st1))
                   then (case map_of (actionNamesById st1) a of
                           None \<Rightarrow> map_of (actionNotesById st) a
                         | Some fn \<Rightarrow> Some (keptNote fn (map_of (actionNotesById st) a)))
                   else map_of (actionNotesById st) a)"
    by (simp_all add: ensureAllNotes_def)
  have names2: "actionNamesById st2 = actionNamesById st1"
    using ensureAllNotes_frame(1)[of env st1] e by simp
  let ?st' = "sendStatus (send (refreshEntryNotes st2) DataChangedEvent)
                (''Extracted '' @ show_nat n @ '' action names (''
                   @ show_nat c @ '' chunks scanned)'')"
  have r: "extractActionNames fetch env st = Some (Ok (c, n), ?st')"
    using f e t by (simp add: extractActionNames_run[OF assms(1)])
  have n': "actionNamesById ?st' = actionNamesById st1"
    by (simp add: sendStatus_def send_def refreshEntryNotes_def names2)
  have o': "actionNotesById ?st' = actionNotesById st2"
    by (simp add: sendStatus_def send_def refreshEntryNotes_def)
  have all: "map_of (actionNotesById ?st') a =
               (case map_of (actionNamesById ?st') a of
                  None \<Rightarrow> map_of (actionNotesById st) a
                | Some name \<Rightarrow> Some (keptNote name (map_of (actionNotesById st) a)))" for a
  proof (cases "map_of (actionNamesById st1) a")
    case None
    then show ?thesis unfolding n' o' notes2 by simp
  next
    case (Some name)
    then have "a \<in> set (map fst (actionNamesById st1))"
      by (metis map_of_eq_None_iff option.distinct(1) set_map)
    with Some show ?thesis unfolding n' o' notes2 by simp
  qed
  have names': "map_of (actionNamesById ?st')
               = map_of (passMatches (namePatterns env) pages) ++ map_of (actionNamesById st)"
    by (simp only: n' names1)
  show ?thesis
    by (intro exI conjI allI) (rule r, rule names', rule all)
qed

text \<open>
  C8, as the code has it: for an identifier whose function name is known (and which is
  not itself the name of an inherited property), the note maintenance leaves a note that
  contains the text \<open>Function: <name>\<close>. With no note before, the note is that line; a
  note that already contains the text anywhere is kept unchanged; any other note is
  kept verbatim below the new first line. This is the note after \<open>ensureActionNotes\<close>
  and after the creation of an invocation for the identifier. After a complete
  name-extraction pass it is the note of every identifier that then has a name (one
  named before the pass, or one that the pass itself names), computed from the note the
  identifier had before the pass; the notes of unnamed identifiers are as they were.
\<close>

theorem C8_note_keeps_function_prefix:
  assumes "map_of (actionNamesById st) actionId = Some fn"
      and "ordinaryKey actionId"
  shows "let kept = keptNote fn (map_of (actionNotesById st) actionId)
         in js_includes kept (functionPrefix fn)
          \<and> ensureActionNotes env st actionId = Inr (notesEnsured env st actionId, kept)
          \<and> map_of (actionNotesById (notesEnsured env st actionId)) actionId = Some kept
          \<and> (req_id request \<notin> seenRequestIds st \<longrightarrow>
                fst (addActionEntry env st request response actionId) = None
              \<and> map_of (actionNotesById (snd (addActionEntry env st request response actionId)))
                  actionId = Some kept
              \<and> ae_actionNotes
                  (last (actions (snd (addActionEntry env st request response actionId))))
                  = kept)
          \<and> (traversal fetch None pages None \<and> ordinaryNames st \<longrightarrow>
                (\<exists>r st'. extractActionNames fetch env st = Some (Ok r, st')
                   \<and> (\<forall>a. map_of (actionNotesById st') a =
                           (case map_of (actionNamesById st') a of
                              None \<Rightarrow> map_of (actionNotesById st) a
                            | Some name \<Rightarrow>
                                Some (keptNote name (map_of (actionNotesById st) a))))
                   \<and> map_of (actionNamesById st') actionId = Some fn
                   \<and> map_of (actionNotesById st') actionId = Some kept))"
proof -
  define kept where "kept = keptNote fn (map_of (actionNotesById st) actionId)"
  have ni: "getProp (actionNotesById st) actionId \<noteq> Inherited"
    using assms(2) by (rule ordinary_not_inherited)
  have inc: "js_includes kept (functionPrefix fn)"
    unfolding kept_def by (rule kept_includes)
  have ret: "noteEnsured env st actionId = kept"
    unfolding kept_def by (rule ensured_named(1)[OF assms(1) ni])
  have res: "ensureActionNotes env st actionId = Inr (notesEnsured env st actionId, kept)"
    using ensured_named(3)[OF assms(1) ni, of env] ret by simp
  have stored: "map_of (actionNotesById (notesEnsured env st actionId)) actionId = Some kept"
    by (simp add: ensured_named(2)[OF assms(1) ni] kept_def)
  have add: "fst (addActionEntry env st request response actionId) = None
              \<and> map_of (actionNotesById (snd (addActionEntry env st request response actionId)))
                  actionId = Some kept
              \<and> ae_actionNotes
                  (last (actions (snd (addActionEntry env st request response actionId))))
                  = kept" if "req_id request \<notin> seenRequestIds st"
    using stored ret by (simp add: addActionEntry_ordinary[OF that assms(2)] newEntry_def)
  have pass: "\<exists>r st'. extractActionNames fetch env st = Some (Ok r, st')
                   \<and> (\<forall>a. map_of (actionNotesById st') a =
                           (case map_of (actionNamesById st') a of
                              None \<Rightarrow> map_of (actionNotesById st) a
                            | Some name \<Rightarrow>
                                Some (keptNote name (map_of (actionNotesById st) a))))
                   \<and> map_of (actionNamesById st') actionId = Some fn
                   \<and> map_of (actionNotesById st') actionId = Some kept"
    if t: "traversal fetch None pages None" and o: "ordinaryNames st"
  proof -
    from pass_notes[OF t o, of env] obtain r st' where
      r: "extractActionNames fetch env st = Some (Ok r, st')"
      and names: "map_of (actionNamesById st')
               = map_of (passMatches (namePatterns env) pages) ++ map_of (actionNamesById st)"
      and noted: "\<forall>a. map_of (actionNotesById st') a =
                   (case map_of (actionNamesById st') a of
                      None \<Rightarrow> map_of (actionNotesById st) a
                    | Some name \<Rightarrow> Some (keptNote name (map_of (actionNotesById st) a)))"
      by blast
    have n: "map_of (actionNamesById st') actionId = Some fn"
      unfolding names using assms(1) by (simp add: map_add_def)
    have "map_of (actionNotesById st') actionId = Some kept"
      using noted[THEN spec, of actionId] n by (simp add: kept_def)
    with r noted n show ?thesis by blast
  qed
  show ?thesis
    unfolding Let_def kept_def[symmetric]
    using inc res stored add pass by blast
qed

text \<open>
  The claim as stated fails. A note in which the analyst wrote the prefix line twice is
  left with two such lines; a note that quotes the prefix inside a sentence is left
  unchanged, with no line equal to the prefix and nothing moved below one.
\<close>

theorem C8_prefix_once_counterexample:
  "map_of (actionNamesById doubledNoteState) firstChunkId = Some ''oldName''
   \<and> map_of (actionNotesById (notesEnsured sampleEnv doubledNoteState firstChunkId)) firstChunkId
       = Some (''Function: oldName'' @ [CHR 0x0A] @ ''Function: oldName'')
   \<and> occurrences ''Function: oldName''
        (''Function: oldName'' @ [CHR 0x0A] @ ''Function: oldName'') = 2
   \<and> linesEqual ''Function: oldName''
        (''Function: oldName'' @ [CHR 0x0A] @ ''Function: oldName'') = 2
   \<and> map_of (actionNamesById quotedNoteState) firstChunkId = Some ''oldName''
   \<and> ensureActionNotes sampleEnv quotedNoteState firstChunkId
       = Inr (quotedNoteState, ''see Function: oldNames later'')
   \<and> map_of (actionNotesById quotedNoteState) firstChunkId
       = Some ''see Function: oldNames later''
   \<and> linesEqual ''Function: oldName'' ''see Function: oldNames later'' = 0"
  by (simp add: doubledNoteState_def quotedNoteState_def namedState_def initial_def
      setActionNote_def setProp_def send_def notesEnsured_def ensureActionNotes_def getProp_def
      functionPrefix_def Let_def linesEqual_def firstChunkId_def)

lemma annotated_name: "map_of (actionNamesById annotatedState) firstChunkId = Some ''oldName''"
  by (simp add: annotatedState_def namedState_def initial_def setActionNote_def send_def)

lemma firstChunk_ordinary: "ordinaryKey firstChunkId"
  by (rule long_key_ordinary) (simp add: firstChunkId_def)

lemma earlyNote_names: "ordinaryNames earlyNoteState"
  by (simp add: ordinaryNames_def earlyNoteState_def setActionNote_def send_def initial_def)

lemma annotated_names: "ordinaryNames annotatedState"
  using firstChunk_ordinary
  by (simp add: ordinaryNames_def annotatedState_def namedState_def setActionNote_def send_def
      initial_def)

lemma sample_name_matches:
  "passMatches (namePatterns sampleEnv) [samplePage\<lparr>page_hasNextPage := False\<rparr>]
     = [(firstChunkId, ''foo''), (firstChunkId, ''bar'')]"
  by (simp add: passMatches_def itemMatches_def chunkBody_def samplePage_def sampleRequest_def
      chunkRequest_def chunkResponse_def sampleResponse_def isNextChunkRequest_def
      getTextBody_def allMatches_def sampleEnv_def acceptedMatch_def startsWith_def
      fitsGroups_def isHexDigit_def firstChunkId_def
      List.map_filter_simps suffix_def)

theorem C8_note_keeps_function_prefix_witness:
  "map_of (actionNamesById annotatedState) firstChunkId = Some ''oldName''
   \<and> ordinaryKey firstChunkId
   \<and> map_of (actionNotesById annotatedState) firstChunkId = Some ''check auth''
   \<and> ensureActionNotes sampleEnv annotatedState firstChunkId
       = Inr (notesEnsured sampleEnv annotatedState firstChunkId,
              ''Function: oldName'' @ [CHR 0x0A] @ ''check auth'')
   \<and> map_of (actionNotesById
        (snd (addActionEntry sampleEnv annotatedState sampleRequest sampleResponse firstChunkId)))
        firstChunkId
       = Some (''Function: oldName'' @ [CHR 0x0A] @ ''check auth'')
   \<and> (\<exists>r st'. extractActionNames onePageSource sampleEnv annotatedState = Some (Ok r, st')
          \<and> map_of (actionNotesById st') firstChunkId
               = Some (''Function: oldName'' @ [CHR 0x0A] @ ''check auth''))"
proof -
  have old: "map_of (actionNotesById annotatedState) firstChunkId = Some ''check auth''"
    by (simp add: annotatedState_def namedState_def initial_def setActionNote_def setProp_def
        send_def firstChunkId_def)
  have unseen: "req_id sampleRequest \<notin> seenRequestIds annotatedState"
    by (simp add: annotatedState_def namedState_def initial_def setActionNote_def send_def)
  have kept: "keptNote ''oldName'' (map_of (actionNotesById annotatedState) firstChunkId)
              = ''Function: oldName'' @ [CHR 0x0A] @ ''check auth''"
    by (simp add: old keptNote_def functionPrefix_def)
  note main = C8_note_keeps_function_prefix[OF annotated_name firstChunk_ordinary,
         where request=sampleRequest and env=sampleEnv and response=sampleResponse
           and fetch=onePageSource and pages="[samplePage\<lparr>page_hasNextPage := False\<rparr>]",
         unfolded Let_def kept]
  note ensured = main[THEN conjunct2, THEN conjunct1]
  note added = main[THEN conjunct2, THEN conjunct2, THEN conjunct2, THEN conjunct1, THEN mp,
                    OF unseen, THEN conjunct2, THEN conjunct1]
  note passed = main[THEN conjunct2, THEN conjunct2, THEN conjunct2, THEN conjunct2, THEN mp,
                     OF conjI[OF onePage_traversal annotated_names]]
  from passed obtain r st' where
    "extractActionNames onePageSource sampleEnv annotatedState = Some (Ok r, st')"
    and "map_of (actionNotesById st') firstChunkId
           = Some (''Function: oldName'' @ [CHR 0x0A] @ ''check auth'')"
    by blast
  then have p: "\<exists>r st'. extractActionNames onePageSource sampleEnv annotatedState = Some (Ok r, st')
          \<and> map_of (actionNotesById st') firstChunkId
               = Some (''Function: oldName'' @ [CHR 0x0A] @ ''check auth'')"
    by blast
  show ?thesis
    by (intro conjI) (rule annotated_name, rule firstChunk_ordinary, rule old, rule ensured,
        rule added, rule p)
qed

text \<open>
  The pass on an identifier it names itself: the analyst's note for the identifier of
  the sample chunk, saved before any name was known, stands below the prefix line after
  the pass.
\<close>

lemma pass_keeps_earlier_note:
  "\<exists>r st'. extractActionNames onePageSource sampleEnv earlyNoteState = Some (Ok r, st')
      \<and> map_of (actionNamesById st') firstChunkId = Some ''foo''
      \<and> map_of (actionNotesById st') firstChunkId
           = Some (''Function: foo'' @ [CHR 0x0A] @ ''check auth'')"
proof -
  have old: "map_of (actionNotesById earlyNoteState) firstChunkId = Some ''check auth''"
    by (simp add: earlyNoteState_def initial_def setActionNote_def setProp_def send_def
        firstChunkId_def)
  have none: "map_of (actionNamesById earlyNoteState) = Map.empty"
    by (simp add: earlyNoteState_def initial_def setActionNote_def send_def)
  from pass_notes[OF onePage_traversal earlyNote_names, of sampleEnv]
  obtain r st' where r: "extractActionNames onePageSource sampleEnv earlyNoteState = Some (Ok r, st')"
    and names: "map_of (actionNamesById st')
               = map_of (passMatches (namePatterns sampleEnv) [samplePage\<lparr>page_hasNextPage := False\<rparr>])
                   ++ map_of (actionNamesById earlyNoteState)"
    and noted: "\<forall>a. map_of (actionNotesById st') a =
                   (case map_of (actionNamesById st') a of
                      None \<Rightarrow> map_of (actionNotesById earlyNoteState) a
                    | Some name \<Rightarrow> Some (keptNote name (map_of (actionNotesById earlyNoteState) a)))"
    by blast
  have n: "map_of (actionNamesById st') firstChunkId = Some ''foo''"
    unfolding names sample_name_matches none by simp
  have "map_of (actionNotesById st') firstChunkId
           = Some (''Function: foo'' @ [CHR 0x0A] @ ''check auth'')"
    using noted[THEN spec, of firstChunkId] n old
    by (simp add: keptNote_def functionPrefix_def)
  with r n show ?thesis by blast
qed

subsection \<open>A scan that fails\<close>























subsection \<open>Properties of the full discovery pass\<close>

text \<open>
  The callback of the discovery pass never throws: \<open>ensureActionNotes\<close> is called for an
  identifier only after the lookup of its name has found nothing, and such an identifier
  is not an inherited name.
\<close>

lemma discoverMatch_returns: "fst (discoverMatch env chunkFile requestId st m) = None"
  by (auto simp: discoverMatch_def Let_def ensureNotesOf_fst getProp_Missing_iff
      getProp_Inherited_iff split: option.splits prod.splits lookup.splits)

lemma discoverMatches_run:
  "forEach (discoverMatch env chunkFile requestId) ms st
     = (None, foldl (\<lambda>s m. snd (discoverMatch env chunkFile requestId s m)) st ms)"
  by (rule forEach_total) (rule discoverMatch_returns)

lemma discoverMatch_declared:
  assumes "fitsGroups m"
  shows "declaredNames (snd (discoverMatch env chunkFile requestId st m))
     = map_of (List.map_filter acceptedMatch [m]) ++ declaredNames st"
proof (cases "acceptedMatch m")
  case None
  then show ?thesis
    by (simp add: discoverMatch_def List.map_filter_simps)
next
  case (Some p)
  obtain a f where p: "p = (a, f)" by (cases p)
  have ord: "ordinaryKey a" using assms Some p by (auto intro: accepted_ordinary)
  show ?thesis
  proof (cases "map_of (discoveredActionsById st) a")
    case None
    have "declaredNames (snd (discoverMatch env chunkFile requestId st m))
            = (declaredNames st)(a \<mapsto> f)"
      using None \<open>acceptedMatch m = Some p\<close> p ord
      by (auto simp: discoverMatch_def declaredNames_def Let_def ensureNotesOf_snd
          notesEnsured_frame getProp_ordinary AList.update_conv' fun_eq_iff
          split: option.splits lookup.splits)
    moreover have "declaredNames st a = None"
      using None by (simp add: declaredNames_def)
    ultimately show ?thesis
      using \<open>acceptedMatch m = Some p\<close> p
      by (simp add: List.map_filter_simps map_add_single_absent[of "declaredNames st" a f])
  next
    case (Some d)
    then have "declaredNames st a = Some (di_functionName d)"
      by (simp add: declaredNames_def)
    with Some \<open>acceptedMatch m = Some p\<close> p ord show ?thesis
      by (simp add: discoverMatch_def List.map_filter_simps getProp_ordinary
          map_add_single_present[of "declaredNames st" a "di_functionName d" f])
  qed
qed

lemma update_absent: "k \<notin> fst ` set al \<Longrightarrow> AList.update k v al = al @ [(k, v)]"
  by (induction al) auto

lemma discoverMatch_keyed:
  assumes "keyedById st"
  shows "keyedById (snd (discoverMatch env chunkFile requestId st m))"
proof (cases "acceptedMatch m")
  case None
  with assms show ?thesis by (simp add: discoverMatch_def)
next
  case (Some p)
  obtain a f where p: "p = (a, f)" by (cases p)
  show ?thesis
  proof (cases "getProp (discoveredActionsById st) a = Missing")
    case True
    then have None: "map_of (discoveredActionsById st) a = None"
      by (simp add: getProp_Missing_iff)
    let ?d = "\<lparr>di_actionId = a, di_functionName = f, di_chunkFile = chunkFile,
               di_firstSeen = clock env (ticks st), di_chunkRequestId = requestId\<rparr>"
    have disc: "discoveredActionsById (snd (discoverMatch env chunkFile requestId st m))
                  = AList.update a ?d (discoveredActionsById st)"
      using True \<open>acceptedMatch m = Some p\<close> p
      by (simp add: discoverMatch_def Let_def ensureNotesOf_snd notesEnsured_frame
          split: lookup.splits)
    have absent: "a \<notin> fst ` set (discoveredActionsById st)"
      using None by (simp add: map_of_eq_None_iff)
    have upd: "AList.update a ?d (discoveredActionsById st) = discoveredActionsById st @ [(a, ?d)]"
      using absent by (rule update_absent)
    show ?thesis
      unfolding keyedById_def disc
      using assms absent by (auto simp: keyedById_def upd)
  next
    case False
    with assms \<open>acceptedMatch m = Some p\<close> p show ?thesis
      by (simp add: discoverMatch_def split: lookup.splits)
  qed
qed

lemma discoverMatches_declared:
  "\<forall>m \<in> set ms. fitsGroups m \<Longrightarrow>
   declaredNames (foldl (\<lambda>s m. snd (discoverMatch env chunkFile requestId s m)) st ms)
     = map_of (List.map_filter acceptedMatch ms) ++ declaredNames st"
proof (induction ms arbitrary: st)
  case Nil
  then show ?case by (simp add: List.map_filter_simps)
next
  case (Cons m ms)
  have fit: "fitsGroups m" and rest: "\<forall>m \<in> set ms. fitsGroups m"
    using Cons.prems by simp_all
  have split: "List.map_filter acceptedMatch (m # ms)
          = List.map_filter acceptedMatch [m] @ List.map_filter acceptedMatch ms"
    using map_filter_append[of acceptedMatch "[m]" ms] by simp
  have "declaredNames (foldl (\<lambda>s m. snd (discoverMatch env chunkFile requestId s m)) st (m # ms))
          = map_of (List.map_filter acceptedMatch ms)
              ++ (map_of (List.map_filter acceptedMatch [m]) ++ declaredNames st)"
    by (simp only: foldl_Cons Cons.IH[OF rest] discoverMatch_declared[OF fit])
  also have "\<dots> = map_of (List.map_filter acceptedMatch (m # ms)) ++ declaredNames st"
    by (simp only: split map_of_append map_add_assoc)
  finally show ?case .
qed

lemma discoverMatches_keyed:
  "keyedById st \<Longrightarrow>
     keyedById (foldl (\<lambda>s m. snd (discoverMatch env chunkFile requestId s m)) st ms)"
  by (induction ms arbitrary: st) (simp_all add: discoverMatch_keyed)

lemma discoverItem_returns: "fst (discoverItem env s item) = None"
  by (simp add: discoverItem_def discoverMatches_run split: prod.splits option.splits)

lemma discoverItem_declared:
  "declaredNames (fst (snd (discoverItem env s item)))
     = map_of (itemMatches (discoveryPatterns env) item) ++ declaredNames (fst s)"
proof (cases "chunkBody item")
  case None
  then show ?thesis by (simp add: discoverItem_def itemMatches_def split_beta)
next
  case (Some body)
  have fit: "\<forall>m \<in> set (allMatches (discoveryPatterns env) body). fitsGroups m"
    using allMatches_fit by blast
  from Some show ?thesis
    by (simp add: discoverItem_def itemMatches_def split_beta discoverMatches_run
        discoverMatches_declared[OF fit])
qed

lemma discoverItem_keyed:
  "keyedById (fst s) \<Longrightarrow> keyedById (fst (snd (discoverItem env s item)))"
  by (cases "chunkBody item")
     (simp_all add: discoverItem_def split_beta discoverMatches_run discoverMatches_keyed)

lemma discoverItems_run:
  "forEach (discoverItem env) its s = (None, foldl (\<lambda>s' x. snd (discoverItem env s' x)) s its)"
  by (rule forEach_total) (rule discoverItem_returns)

lemma discoverItems_declared:
  "declaredNames (fst (foldl (\<lambda>s' x. snd (discoverItem env s' x)) s its))
     = map_of (concat (map (itemMatches (discoveryPatterns env)) its)) ++ declaredNames (fst s)"
proof (induction its arbitrary: s)
  case Nil
  then show ?case by simp
next
  case (Cons item its)
  have "declaredNames (fst (foldl (\<lambda>s' x. snd (discoverItem env s' x)) s (item # its)))
          = map_of (concat (map (itemMatches (discoveryPatterns env)) its))
              ++ (map_of (itemMatches (discoveryPatterns env) item) ++ declaredNames (fst s))"
    by (simp only: foldl_Cons Cons.IH discoverItem_declared)
  also have "\<dots> = map_of (concat (map (itemMatches (discoveryPatterns env)) (item # its)))
                     ++ declaredNames (fst s)"
    by (simp add: map_of_append map_add_assoc)
  finally show ?case .
qed

lemma discoverItems_keyed:
  "keyedById (fst s) \<Longrightarrow> keyedById (fst (foldl (\<lambda>s' x. snd (discoverItem env s' x)) s its))"
  by (induction its arbitrary: s) (simp_all add: discoverItem_keyed)

lemma declaredNames_sendStatus: "declaredNames (sendStatus st status) = declaredNames st"
  by (simp add: declaredNames_def sendStatus_def send_def)

lemma keyedById_sendStatus: "keyedById (sendStatus st status) = keyedById st"
  by (simp add: keyedById_def sendStatus_def send_def)

lemma discoverPage_returns: "fst (discoverPage env page s) = None"
  by (simp add: discoverPage_def discoverItems_run split: prod.splits)

lemma discoverPage_declared:
  "declaredNames (fst (snd (discoverPage env page s)))
     = map_of (concat (map (itemMatches (discoveryPatterns env)) (page_items page)))
         ++ declaredNames (fst s)"
  by (simp add: discoverPage_def discoverItems_run split_beta declaredNames_sendStatus
      discoverItems_declared)

lemma discoverPage_keyed:
  "keyedById (fst s) \<Longrightarrow> keyedById (fst (snd (discoverPage env page s)))"
  by (simp add: discoverPage_def discoverItems_run split_beta keyedById_sendStatus
      discoverItems_keyed)

lemma discoverPages_declared:
  "declaredNames (fst (foldl (\<lambda>s' page. snd (discoverPage env page s')) s pages))
     = map_of (passMatches (discoveryPatterns env) pages) ++ declaredNames (fst s)"
proof (induction pages arbitrary: s)
  case Nil
  then show ?case by (simp add: passMatches_def)
next
  case (Cons page pages)
  have "declaredNames (fst (foldl (\<lambda>s' page. snd (discoverPage env page s')) s (page # pages)))
          = map_of (passMatches (discoveryPatterns env) pages)
              ++ (map_of (concat (map (itemMatches (discoveryPatterns env)) (page_items page)))
                    ++ declaredNames (fst s))"
    by (simp only: foldl_Cons Cons.IH discoverPage_declared)
  also have "\<dots> = map_of (passMatches (discoveryPatterns env) (page # pages))
                     ++ declaredNames (fst s)"
    by (simp add: passMatches_def map_of_append map_add_assoc)
  finally show ?case .
qed

lemma discoverPages_keyed:
  "keyedById (fst s)
     \<Longrightarrow> keyedById (fst (foldl (\<lambda>s' page. snd (discoverPage env page s')) s pages))"
  by (induction pages arbitrary: s) (simp_all add: discoverPage_keyed)

text \<open>What the discovery pass returns for a given run of the traffic source.\<close>

lemma findAllActions_run:
  assumes "traversal fetch None pages outcome"
  shows "findAllActions fetch env st =
     (case foldl (\<lambda>s' page. snd (discoverPage env page s'))
             (sendStatus (st\<lparr>discoveredActionsById := []\<rparr>)
                ''Scanning chunks for server actions...'', 0) pages of
        (st', chunksFound) \<Rightarrow>
          (case outcome of
             None \<Rightarrow>
               (let status = ''Found '' @ show_nat (length (allRows st')) @ '' actions (''
                               @ show_nat (length (unusedRows st')) @ '' unused)''
                in Some (Ok \<lparr>dr_status = status, dr_all = allRows st', dr_unused = unusedRows st',
                              dr_unknown = unknownRows st'\<rparr>,
                         send (sendStatus st' status) DataChangedEvent))
           | Some e \<Rightarrow> Some (Error (errorMessage e), sendStatus st' ''Discovery failed'')))"
proof -
  have run: "pagesRun (discoverPage env) pages outcome s
               = (outcome, foldl (\<lambda>s' page. snd (discoverPage env page s')) s pages)" for s
    by (rule pagesRun_total) (rule discoverPage_returns)
  show ?thesis
    by (simp add: findAllActions_def paginate_traversal[OF assms] run
        split: prod.splits option.splits)
qed

text \<open>
  C5: for every run of the traffic source that ends (a complete traversal, or one cut
  short by a thrown error), the full discovery pass returns, and the declared-action
  mapping it leaves is built from the pass alone. The function name
  stored for an identifier is the name of the first accepted pair of the traversal with
  that identifier, and an identifier with no accepted pair in the traversal is not
  declared, whatever the mapping held before; every entry sits under its own
  identifier, once; and the result of the pass does not depend on the mapping the
  store held when the pass began.
\<close>

theorem C5_full_pass_rebuilds_declared_actions:
  assumes "traversal fetch None pages outcome"
  shows "\<exists>r st'. findAllActions fetch env st = Some (r, st')
           \<and> declaredNames st' = map_of (passMatches (discoveryPatterns env) pages)
           \<and> keyedById st'
           \<and> findAllActions fetch env (st\<lparr>discoveredActionsById := earlier\<rparr>) = Some (r, st')"
proof -
  let ?start = "(sendStatus (st\<lparr>discoveredActionsById := []\<rparr>)
                   ''Scanning chunks for server actions...'', 0::nat)"
  let ?final = "foldl (\<lambda>s' page. snd (discoverPage env page s')) ?start pages"
  obtain st1 c where f: "?final = (st1, c)" by (cases ?final)
  have d0: "declaredNames (fst ?start) = Map.empty"
    by (simp add: declaredNames_def sendStatus_def send_def)
  have k0: "keyedById (fst ?start)"
    by (simp add: keyedById_def sendStatus_def send_def)
  have d1: "declaredNames st1 = map_of (passMatches (discoveryPatterns env) pages)"
    using discoverPages_declared[where env=env and s="?start" and pages=pages] f d0 by simp
  have k1: "keyedById st1"
    using discoverPages_keyed[OF k0, of env pages] f by simp
  have same: "findAllActions fetch env (st\<lparr>discoveredActionsById := earlier\<rparr>)
                = findAllActions fetch env st"
    by (simp add: findAllActions_def)
  show ?thesis
  proof (cases outcome)
    case None
    let ?status = "''Found '' @ show_nat (length (allRows st1)) @ '' actions (''
                     @ show_nat (length (unusedRows st1)) @ '' unused)''"
    let ?st' = "send (sendStatus st1 ?status) DataChangedEvent"
    have r: "findAllActions fetch env st
               = Some (Ok \<lparr>dr_status = ?status, dr_all = allRows st1, dr_unused = unusedRows st1,
                             dr_unknown = unknownRows st1\<rparr>, ?st')"
      using f None by (simp add: findAllActions_run[OF assms] Let_def)
    have "declaredNames ?st' = declaredNames st1" and "keyedById ?st' = keyedById st1"
      by (simp_all add: declaredNames_def keyedById_def sendStatus_def send_def)
    with r d1 k1 same show ?thesis by simp
  next
    case (Some e)
    let ?st' = "sendStatus st1 ''Discovery failed''"
    have r: "findAllActions fetch env st = Some (Error (errorMessage e), ?st')"
      using f Some by (simp add: findAllActions_run[OF assms])
    have "declaredNames ?st' = declaredNames st1" and "keyedById ?st' = keyedById st1"
      by (simp_all add: declaredNames_sendStatus keyedById_sendStatus)
    with r d1 k1 same show ?thesis by simp
  qed
qed

lemma sample_passMatches:
  "passMatches (discoveryPatterns sampleEnv) [samplePage\<lparr>page_hasNextPage := False\<rparr>]
     = [(firstChunkId, ''foo''), (firstChunkId, ''bar'')]"
  by (simp add: passMatches_def itemMatches_def chunkBody_def samplePage_def sampleRequest_def
      chunkRequest_def chunkResponse_def sampleResponse_def isNextChunkRequest_def
      getTextBody_def allMatches_def sampleEnv_def acceptedMatch_def startsWith_def
      fitsGroups_def isHexDigit_def firstChunkId_def
      List.map_filter_simps suffix_def)

theorem C5_full_pass_rebuilds_declared_actions_witness:
  "traversal onePageSource None [samplePage\<lparr>page_hasNextPage := False\<rparr>] None
   \<and> declaredNames collisionState ''xxxx'' = Some ''checkout''
   \<and> (\<exists>r st'. findAllActions onePageSource sampleEnv collisionState = Some (r, st')
          \<and> declaredNames st' firstChunkId = Some ''foo''
          \<and> declaredNames st' ''xxxx'' = None
          \<and> keyedById st')"
proof -
  have before: "declaredNames collisionState ''xxxx'' = Some ''checkout''"
    by (simp add: declaredNames_def collisionState_def initial_def)
  from C5_full_pass_rebuilds_declared_actions[OF onePage_traversal, of sampleEnv collisionState]
  obtain r st' where "findAllActions onePageSource sampleEnv collisionState = Some (r, st')"
    and d: "declaredNames st'
           = map_of (passMatches (discoveryPatterns sampleEnv)
                       [samplePage\<lparr>page_hasNextPage := False\<rparr>])"
    and "keyedById st'"
    by blast
  moreover have "declaredNames st' firstChunkId = Some ''foo''"
    and "declaredNames st' ''xxxx'' = None"
    unfolding d sample_passMatches by (simp_all add: firstChunkId_def)
  ultimately show ?thesis using before onePage_traversal by blast
qed

subsection \<open>Properties of the classification view\<close>













end
